theory Spec2Isabelle
  imports Main
begin

section \<open>Data model of \<^verbatim>\<open>src/app/page.tsx\<close>\<close>

text \<open>
  The page keeps a list of transactions, a list of bank accounts and the profile of the
  signed-in user, and derives every chart from them on each render.

  Numbers: \<^verbatim>\<open>amount\<close> and \<^verbatim>\<open>balance\<close> are JavaScript numbers, that is, doubles. They
  are modelled as \<open>int\<close>: whole amounts. The curves, the counterparties and the totals
  of the first sections add them exactly, which is what the double arithmetic of
  \<^verbatim>\<open>+\<close>, \<^verbatim>\<open>-\<close> and \<^verbatim>\<open>Math.abs\<close> gives inside the safe-integer range. The section on
  the totals as doubles models the additions of the type totals and of the total volume
  with their rounding, for whole amounts of any size. Results that can leave the integers
  (\<^verbatim>\<open>Math.round(a / b)\<close>, \<^verbatim>\<open>Math.max()\<close> of nothing, a sum that overflows) have the
  type \<open>jsnumber\<close>.

  Time: \<^verbatim>\<open>createdAt\<close> is an ISO timestamp string that the code only ever reads through
  \<^verbatim>\<open>new Date(tx.createdAt)\<close>. The field holds the instant that expression denotes, in
  milliseconds since the epoch (\<^verbatim>\<open>getTime()\<close>).
\<close>

record userRef =
  name :: string
  uid :: string

record endpoint =
  number :: string
  user :: userRef

record transaction =
  tx_id :: string
  amount :: int
  createdAt :: int
  currency :: string
  tx_from :: endpoint
  tx_to :: endpoint

record bankAccount =
  acct_id :: string
  acct_number :: string
  acct_balance :: int
  acct_currency :: string
  acct_user :: userRef

record User =
  user_id :: string
  user_name :: string
  email :: string

datatype jsnumber = Finite int | NaN | PosInfinity | NegInfinity

text \<open>
  \<^verbatim>\<open>tx.to.user.id === currentUser?.id\<close>: with no profile the right-hand side is
  \<^verbatim>\<open>undefined\<close>, which no string is strictly equal to.
\<close>

definition isIncomingTransaction :: "User option \<Rightarrow> transaction \<Rightarrow> bool" where
  "isIncomingTransaction currentUser tx =
     (case currentUser of
        None \<Rightarrow> False
      | Some u \<Rightarrow> uid (user (tx_to tx)) = user_id u)"

text \<open>\<^verbatim>\<open>x || 0\<close> on a number: \<^verbatim>\<open>0\<close> is the only falsy integer.\<close>

definition orZero :: "int \<Rightarrow> int" where
  "orZero x = (if x = 0 then 0 else x)"

section \<open>Table sorter state\<close>

datatype SortField = by_date | by_amount | by_from | by_to

datatype SortOrder = asc | desc

record sorter =
  sortField :: SortField
  sortOrder :: SortOrder

text \<open>
  \<^verbatim>\<open>
  const handleSort = (field: SortField) => {
    if (sortField === field) {
      setSortOrder(sortOrder === 'asc' ? 'desc' : 'asc');
    } else {
      setSortField(field);
      setSortOrder('asc');
    }
  };
  \<close>
\<close>

definition handleSort :: "SortField \<Rightarrow> sorter \<Rightarrow> sorter" where
  "handleSort field s =
     (if sortField s = field
      then s\<lparr>sortOrder := (if sortOrder s = asc then desc else asc)\<rparr>
      else s\<lparr>sortField := field, sortOrder := asc\<rparr>)"

section \<open>Income and expense totals, summary statistics\<close>

record typeTotals =
  Income :: int
  Expense :: int

definition typesStep :: "User option \<Rightarrow> typeTotals \<Rightarrow> transaction \<Rightarrow> typeTotals" where
  "typesStep currentUser acc tx =
     (if isIncomingTransaction currentUser tx
      then acc\<lparr>Income := orZero (Income acc) + \<bar>amount tx\<bar>\<rparr>
      else acc\<lparr>Expense := orZero (Expense acc) + \<bar>amount tx\<bar>\<rparr>)"

definition transactionTypes :: "User option \<Rightarrow> transaction list \<Rightarrow> typeTotals" where
  "transactionTypes currentUser transactions =
     foldl (typesStep currentUser) \<lparr>Income = 0, Expense = 0\<rparr> transactions"

text \<open>
  \<^verbatim>\<open>Math.round(a / n)\<close> for an integer \<open>a\<close> and a length \<open>n\<close>. \<^verbatim>\<open>Math.round\<close> rounds
  to the nearest integer, a half towards \<open>+\<infinity>\<close>, that is \<open>\<lfloor>a / n + 1/2\<rfloor>\<close>. Dividing by
  zero raises nothing in JavaScript: it gives \<^verbatim>\<open>NaN\<close> or an infinity. The quotient is
  taken exactly here; the browser rounds it to a double before \<^verbatim>\<open>Math.round\<close>, which
  can move a quotient of more than 51 bits across a half. Only the case \<open>n = 0\<close> and its
  guard are used below.
\<close>

definition roundedQuotient :: "int \<Rightarrow> nat \<Rightarrow> jsnumber" where
  "roundedQuotient a n =
     (if n = 0
      then (if a = 0 then NaN else if 0 < a then PosInfinity else NegInfinity)
      else Finite ((2 * a + int n) div (2 * int n)))"

text \<open>\<^verbatim>\<open>Math.max(...xs)\<close> and \<^verbatim>\<open>Math.min(...xs)\<close>; of no argument they are the infinities.\<close>

definition mathMax :: "int list \<Rightarrow> jsnumber" where
  "mathMax xs = (case xs of [] \<Rightarrow> NegInfinity | x # rest \<Rightarrow> Finite (foldl max x rest))"

definition mathMin :: "int list \<Rightarrow> jsnumber" where
  "mathMin xs = (case xs of [] \<Rightarrow> PosInfinity | x # rest \<Rightarrow> Finite (foldl min x rest))"

record stats =
  totalTransactions :: nat
  totalVolume :: int
  averageAmount :: jsnumber
  largestTransaction :: jsnumber
  smallestTransaction :: jsnumber

definition volume :: "transaction list \<Rightarrow> int" where
  "volume transactions = foldl (\<lambda>sum tx. sum + \<bar>amount tx\<bar>) 0 transactions"

definition transactionStats :: "transaction list \<Rightarrow> stats" where
  "transactionStats transactions =
     \<lparr>totalTransactions = length transactions,
      totalVolume = volume transactions,
      averageAmount =
        (if length transactions > 0
         then roundedQuotient (volume transactions) (length transactions)
         else Finite 0),
      largestTransaction =
        (if length transactions > 0
         then mathMax (map (\<lambda>tx. \<bar>amount tx\<bar>) transactions)
         else Finite 0),
      smallestTransaction =
        (if length transactions > 0
         then mathMin (map (\<lambda>tx. \<bar>amount tx\<bar>) transactions)
         else Finite 0)\<rparr>"

section \<open>The totals as doubles\<close>

text \<open>
  A JavaScript number is an IEEE-754 double, and \<^verbatim>\<open>+\<close> gives the exact sum rounded to
  the nearest double, a tie going to the even significand. On whole numbers: every
  integer of at most 53 bits is a double and so is \<open>2\<^sup>5\<^sup>3\<close>; a longer one is rounded to
  53 significant bits; a result of \<open>2\<^sup>1\<^sup>0\<^sup>2\<^sup>4\<close> or more is an infinity. This section
  repeats the reduces of the type totals and of the total volume with the additions as
  the browser performs them; \<open>transactionTypes\<close> and \<open>volume\<close> above add exactly.
\<close>

function bitLength :: "int \<Rightarrow> nat" where
  "bitLength x = (if x \<le> 0 then 0 else Suc (bitLength (x div 2)))"
  by pat_completeness auto
termination
  by (relation "measure nat") auto

declare bitLength.simps [simp del]

definition roundToDouble :: "int \<Rightarrow> jsnumber" where
  "roundToDouble x =
     (let a = \<bar>x\<bar>; n = bitLength a
      in if n \<le> 53 then Finite x
         else
           (let u = 2 ^ (n - 53); q = a div u; r = a mod u;
                m = (if 2 * r < u then q
                     else if u < 2 * r then q + 1
                     else if even q then q else q + 1);
                y = m * u
            in if 1024 < bitLength y then (if 0 < x then PosInfinity else NegInfinity)
               else Finite (if 0 < x then y else - y)))"

fun jsAdd :: "jsnumber \<Rightarrow> jsnumber \<Rightarrow> jsnumber" where
  "jsAdd (Finite a) (Finite b) = roundToDouble (a + b)"
| "jsAdd NaN y = NaN"
| "jsAdd x NaN = NaN"
| "jsAdd PosInfinity NegInfinity = NaN"
| "jsAdd NegInfinity PosInfinity = NaN"
| "jsAdd PosInfinity y = PosInfinity"
| "jsAdd x PosInfinity = PosInfinity"
| "jsAdd NegInfinity y = NegInfinity"
| "jsAdd x NegInfinity = NegInfinity"

text \<open>\<^verbatim>\<open>x || 0\<close> on a number: \<^verbatim>\<open>0\<close> and \<^verbatim>\<open>NaN\<close> are the falsy numbers.\<close>

definition orZeroNumber :: "jsnumber \<Rightarrow> jsnumber" where
  "orZeroNumber x = (if x = Finite 0 \<or> x = NaN then Finite 0 else x)"

text \<open>
  \<^verbatim>\<open>Math.abs(tx.amount)\<close>: the whole amount \<open>amount tx\<close> as the double the payload
  holds for it, without its sign.
\<close>

definition absAmount :: "transaction \<Rightarrow> jsnumber" where
  "absAmount tx = roundToDouble \<bar>amount tx\<bar>"

record typeTotals_double =
  Income_double :: jsnumber
  Expense_double :: jsnumber

text \<open>
  \<^verbatim>\<open>
  const transactionTypes = transactions.reduce((acc, tx) => {
    const isIncomingTransaction = tx.to.user.id === currentUser?.id;
    const amount = Math.abs(tx.amount);
    if (isIncomingTransaction) { acc.Income = (acc.Income || 0) + amount; }
    else { acc.Expense = (acc.Expense || 0) + amount; }
    return acc;
  }, { Income: 0, Expense: 0 });
  \<close>
\<close>

definition typesStep_double ::
  "User option \<Rightarrow> typeTotals_double \<Rightarrow> transaction \<Rightarrow> typeTotals_double" where
  "typesStep_double currentUser acc tx =
     (if isIncomingTransaction currentUser tx
      then acc\<lparr>Income_double := jsAdd (orZeroNumber (Income_double acc)) (absAmount tx)\<rparr>
      else acc\<lparr>Expense_double := jsAdd (orZeroNumber (Expense_double acc)) (absAmount tx)\<rparr>)"

definition transactionTypes_double :: "User option \<Rightarrow> transaction list \<Rightarrow> typeTotals_double" where
  "transactionTypes_double currentUser transactions =
     foldl (typesStep_double currentUser)
       \<lparr>Income_double = Finite 0, Expense_double = Finite 0\<rparr> transactions"

text \<open>\<^verbatim>\<open>totalVolume: transactions.reduce((sum, tx) => sum + Math.abs(tx.amount), 0)\<close>\<close>

definition totalVolume_double :: "transaction list \<Rightarrow> jsnumber" where
  "totalVolume_double transactions =
     foldl (\<lambda>sum tx. jsAdd sum (absAmount tx)) (Finite 0) transactions"

section \<open>Sorting an array\<close>

text \<open>
  \<^verbatim>\<open>Array.prototype.sort(cmp)\<close> sorts the array it is called on in place and returns it.
  The sort is stable: elements that \<open>cmp\<close> does not order keep their relative order.
  For a comparator that is a consistent ordering the result is therefore determined, and
  it is the one stable insertion computes: \<open>x\<close> goes before \<open>y\<close> when \<open>cmp x y \<le> 0\<close>.
  Every comparator of the page is a difference of numbers or a \<^verbatim>\<open>localeCompare\<close>.
\<close>

fun insertSorted :: "('a \<Rightarrow> 'a \<Rightarrow> int) \<Rightarrow> 'a \<Rightarrow> 'a list \<Rightarrow> 'a list" where
  "insertSorted cmp x [] = [x]"
| "insertSorted cmp x (y # ys) =
     (if cmp x y \<le> 0 then x # y # ys else y # insertSorted cmp x ys)"

fun arraySort :: "('a \<Rightarrow> 'a \<Rightarrow> int) \<Rightarrow> 'a list \<Rightarrow> 'a list" where
  "arraySort cmp [] = []"
| "arraySort cmp (x # xs) = insertSorted cmp x (arraySort cmp xs)"

text \<open>
  What the proofs need of a comparator: the sign of \<open>cmp a b\<close> is the opposite of the sign
  of \<open>cmp b a\<close>, and "not after" is transitive. A difference of integers has both
  properties; for \<^verbatim>\<open>localeCompare\<close>, which the runtime provides, they are a hypothesis.
\<close>

definition consistentComparator :: "('a \<Rightarrow> 'a \<Rightarrow> int) \<Rightarrow> bool" where
  "consistentComparator cmp \<longleftrightarrow>
     (\<forall>a b. (cmp a b \<le> 0) = (0 \<le> cmp b a)) \<and>
     (\<forall>a b c. cmp a b \<le> 0 \<and> cmp b c \<le> 0 \<longrightarrow> cmp a c \<le> 0)"

text \<open>
  A concrete \<^verbatim>\<open>localeCompare\<close> for evaluation: code units compared from the left, a proper
  prefix first.
\<close>

fun codeUnitCompare :: "string \<Rightarrow> string \<Rightarrow> int" where
  "codeUnitCompare [] [] = 0"
| "codeUnitCompare [] (y # ys) = -1"
| "codeUnitCompare (x # xs) [] = 1"
| "codeUnitCompare (x # xs) (y # ys) =
     (if (of_char x :: nat) < of_char y then -1
      else if (of_char y :: nat) < of_char x then 1
      else codeUnitCompare xs ys)"

section \<open>Table sorter\<close>

text \<open>
  \<^verbatim>\<open>
  const sortedTransactions = [...transactions].sort((a, b) => {
    const multiplier = sortOrder === 'asc' ? 1 : -1;
    switch (sortField) {
      case 'date':   return (new Date(a.createdAt).getTime() - new Date(b.createdAt).getTime()) * multiplier;
      case 'amount': return (a.amount - b.amount) * multiplier;
      case 'from':   return a.from.user.name.localeCompare(b.from.user.name) * multiplier;
      case 'to':     return a.to.user.name.localeCompare(b.to.user.name) * multiplier;
      default:       return 0;
    }
  });
  \<close>
  The spread copies the array, so this sort leaves \<^verbatim>\<open>transactions\<close> alone.
\<close>

definition tableComparator ::
  "(string \<Rightarrow> string \<Rightarrow> int) \<Rightarrow> sorter \<Rightarrow> transaction \<Rightarrow> transaction \<Rightarrow> int" where
  "tableComparator localeCompare s a b =
     (let multiplier = (if sortOrder s = asc then 1 else -1)
      in case sortField s of
           by_date \<Rightarrow> (createdAt a - createdAt b) * multiplier
         | by_amount \<Rightarrow> (amount a - amount b) * multiplier
         | by_from \<Rightarrow>
             localeCompare (name (user (tx_from a))) (name (user (tx_from b))) * multiplier
         | by_to \<Rightarrow>
             localeCompare (name (user (tx_to a))) (name (user (tx_to b))) * multiplier)"

definition sortedTransactions ::
  "(string \<Rightarrow> string \<Rightarrow> int) \<Rightarrow> sorter \<Rightarrow> transaction list \<Rightarrow> transaction list" where
  "sortedTransactions localeCompare s transactions =
     arraySort (tableComparator localeCompare s) transactions"

section \<open>Balance curves\<close>

text \<open>
  Both curves bucket by
  \<^verbatim>\<open>new Date(tx.createdAt).toLocaleString('cs-CZ', {month: 'numeric', day: 'numeric'})\<close>.
  The label depends on the instant and on the time zone of the browser, so the curves
  take the formatter as the parameter \<open>dayMonth\<close>. \<open>dayMonthUTC\<close> is the formatter of a
  browser in UTC (\<^verbatim>\<open>15. 1.\<close> for the 15th of January of any year), used to evaluate the
  curves at concrete inputs.
\<close>

text \<open>
  The month and the day of the month of the Gregorian calendar, from the number of days
  since 1 January 1970.
\<close>

definition civilMonthDay :: "int \<Rightarrow> int \<times> int" where
  "civilMonthDay days =
     (let z = days + 719468;
          doe = z mod 146097;
          yoe = (doe - doe div 1460 + doe div 36524 - doe div 146096) div 365;
          doy = doe - (365 * yoe + yoe div 4 - yoe div 100);
          mp = (5 * doy + 2) div 153;
          d = doy - (153 * mp + 2) div 5 + 1;
          m = (if mp < 10 then mp + 3 else mp - 9)
      in (m, d))"

definition decimal2 :: "int \<Rightarrow> string" where
  "decimal2 n =
     (if n < 10 then [''0123456789'' ! nat n]
      else [''0123456789'' ! nat (n div 10), ''0123456789'' ! nat (n mod 10)])"

definition dayMonthUTC :: "int \<Rightarrow> string" where
  "dayMonthUTC ms =
     (case civilMonthDay (ms div 86400000) of
        (m, d) \<Rightarrow> decimal2 d @ ''. '' @ decimal2 m @ ''.'')"

text \<open>\<^verbatim>\<open>findIndex\<close>: the first index whose item satisfies \<open>p\<close>; \<open>None\<close> is the source's \<open>-1\<close>.\<close>

fun findIndex :: "('a \<Rightarrow> bool) \<Rightarrow> 'a list \<Rightarrow> nat option" where
  "findIndex p [] = None"
| "findIndex p (x # xs) = (if p x then Some 0 else map_option Suc (findIndex p xs))"

record point =
  date :: string
  balance :: int

record balancePoint = point +
  transactionAmount :: int

text \<open>
  The items of the running balance are \<^verbatim>\<open>{date, balance, incoming, outgoing}\<close>; the last
  two fields are \<open>dailyIncoming\<close> and \<open>dailyOutgoing\<close> here, since \<open>incoming\<close> and
  \<open>outgoing\<close> name the fields of a counterparty below.
\<close>

record runningPoint = point +
  dailyIncoming :: int
  dailyOutgoing :: int

definition signedAmount :: "User option \<Rightarrow> transaction \<Rightarrow> int" where
  "signedAmount currentUser tx =
     (if isIncomingTransaction currentUser tx then \<bar>amount tx\<bar> else - \<bar>amount tx\<bar>)"

text \<open>
  \<^verbatim>\<open>
  .reduce((acc, tx) => {
    const lastBalance = acc.length > 0 ? acc[acc.length - 1].balance : 0;
    const isIncomingTransaction = tx.to.user.id === currentUser?.id;
    const transactionAmount = isIncomingTransaction ? Math.abs(tx.amount) : -Math.abs(tx.amount);
    const newBalance = lastBalance + transactionAmount;
    const date = new Date(tx.createdAt).toLocaleString('cs-CZ', {...});
    const existingDateIndex = acc.findIndex(item => item.date === date);
    if (existingDateIndex !== -1) {
      acc[existingDateIndex].balance = newBalance;
      return acc;
    }
    return [...acc, { date, balance: newBalance, transactionAmount }];
  }, [])
  \<close>
\<close>

definition balanceStep ::
  "User option \<Rightarrow> (int \<Rightarrow> string) \<Rightarrow> balancePoint list \<Rightarrow> transaction \<Rightarrow> balancePoint list" where
  "balanceStep currentUser dayMonth acc tx =
     (let lastBalance = (if length acc > 0 then balance (last acc) else 0);
          newBalance = lastBalance + signedAmount currentUser tx;
          d = dayMonth (createdAt tx)
      in case findIndex (\<lambda>item. date item = d) acc of
           Some existingDateIndex \<Rightarrow>
             acc[existingDateIndex := (acc ! existingDateIndex)\<lparr>balance := newBalance\<rparr>]
         | None \<Rightarrow>
             acc @ [\<lparr>date = d, balance = newBalance,
                     transactionAmount = signedAmount currentUser tx\<rparr>])"

text \<open>
  \<^verbatim>\<open>transactions.sort(...)\<close> is called on the state array itself, so the call has two
  results: the array \<^verbatim>\<open>transactions\<close> as the sort leaves it, and the curve.
\<close>

definition sortChronological :: "transaction list \<Rightarrow> transaction list" where
  "sortChronological transactions = arraySort (\<lambda>a b. createdAt a - createdAt b) transactions"

definition balanceData ::
  "User option \<Rightarrow> (int \<Rightarrow> string) \<Rightarrow> transaction list \<Rightarrow>
     transaction list \<times> balancePoint list" where
  "balanceData currentUser dayMonth transactions =
     (let sorted = sortChronological transactions
      in (sorted, foldl (balanceStep currentUser dayMonth) [] sorted))"

text \<open>
  The running balance walks from the newest transaction back, starting from
  \<^verbatim>\<open>accounts[0]?.balance || 0\<close>, and is reversed at the end.
\<close>

definition seedBalance :: "bankAccount list \<Rightarrow> int" where
  "seedBalance accts = (case accts of [] \<Rightarrow> 0 | a # rest \<Rightarrow> orZero (acct_balance a))"

definition runningStep ::
  "User option \<Rightarrow> (int \<Rightarrow> string) \<Rightarrow> bankAccount list \<Rightarrow>
     runningPoint list \<Rightarrow> transaction \<Rightarrow> runningPoint list" where
  "runningStep currentUser dayMonth accts acc tx =
     (let currentBalance = (if length acc > 0 then balance (last acc) else seedBalance accts);
          isIncoming = isIncomingTransaction currentUser tx;
          txAmount = (if isIncoming then - \<bar>amount tx\<bar> else \<bar>amount tx\<bar>);
          newBalance = currentBalance + txAmount;
          d = dayMonth (createdAt tx)
      in case findIndex (\<lambda>item. date item = d) acc of
           Some existingDateIndex \<Rightarrow>
             (let item = acc ! existingDateIndex;
                  item1 = (if isIncoming
                           then item\<lparr>dailyIncoming := dailyIncoming item + \<bar>amount tx\<bar>\<rparr>
                           else item\<lparr>dailyOutgoing := dailyOutgoing item - \<bar>amount tx\<bar>\<rparr>)
              in acc[existingDateIndex := item1\<lparr>balance := newBalance\<rparr>])
         | None \<Rightarrow>
             acc @ [\<lparr>date = d, balance = newBalance,
                     dailyIncoming = (if isIncoming then \<bar>amount tx\<bar> else 0),
                     dailyOutgoing = (if isIncoming then 0 else - \<bar>amount tx\<bar>)\<rparr>])"

definition sortNewestFirst :: "transaction list \<Rightarrow> transaction list" where
  "sortNewestFirst transactions = arraySort (\<lambda>a b. createdAt b - createdAt a) transactions"

definition runningBalanceData ::
  "User option \<Rightarrow> (int \<Rightarrow> string) \<Rightarrow> bankAccount list \<Rightarrow> transaction list \<Rightarrow>
     transaction list \<times> runningPoint list" where
  "runningBalanceData currentUser dayMonth accts transactions =
     (let sorted = sortNewestFirst transactions
      in (sorted, rev (foldl (runningStep currentUser dayMonth accts) [] sorted)))"

section \<open>Top counterparties\<close>

text \<open>
  The reduce collects the counterparties in an object literal keyed by display name,
  \<^verbatim>\<open>acc[partnerName]\<close>, and \<^verbatim>\<open>Object.values(topPartners)\<close> lists them. An object is
  modelled by its own properties in the order they were created. Two rules of the
  language decide what the code does with a key:

  \<^item> \<^verbatim>\<open>Object.values\<close> lists the own properties whose key is an array index (the
    canonical decimal string of an integer from 0 to \<open>2\<^sup>3\<^sup>2 - 2\<close>) first, in ascending
    numeric order, and then the other string keys in creation order.
  \<^item> Reading \<^verbatim>\<open>acc[k]\<close> of an object literal also finds the properties of
    \<^verbatim>\<open>Object.prototype\<close>: for such a key \<^verbatim>\<open>!acc[k]\<close> is false before any own
    property \<open>k\<close> exists, no own property is created, and \<^verbatim>\<open>acc[k].incoming += amount\<close>
    writes to the inherited function or object instead.
\<close>

type_synonym 'v jsobject = "(string \<times> 'v) list"

definition objectPrototypeKeys :: "string list" where
  "objectPrototypeKeys =
     [''constructor'', ''hasOwnProperty'', ''isPrototypeOf'', ''propertyIsEnumerable'',
      ''toLocaleString'', ''toString'', ''valueOf'', ''__proto__'',
      ''__defineGetter__'', ''__defineSetter__'', ''__lookupGetter__'', ''__lookupSetter__'']"

fun decimalValue :: "string \<Rightarrow> int \<Rightarrow> int option" where
  "decimalValue [] acc = Some acc"
| "decimalValue (c # cs) acc =
     (if 48 \<le> (of_char c :: int) \<and> (of_char c :: int) \<le> 57
      then decimalValue cs (10 * acc + (of_char c - 48))
      else None)"

definition arrayIndex :: "string \<Rightarrow> int option" where
  "arrayIndex k =
     (if k = [] \<or> (hd k = CHR ''0'' \<and> 1 < length k) then None
      else case decimalValue k 0 of
             None \<Rightarrow> None
           | Some n \<Rightarrow> if n < 4294967295 then Some n else None)"

definition hasOwn :: "'v jsobject \<Rightarrow> string \<Rightarrow> bool" where
  "hasOwn obj k = (k \<in> set (map fst obj))"

text \<open>\<^verbatim>\<open>acc[k]\<close> is truthy: every value stored or inherited here is an object or a function.\<close>

definition truthyProperty :: "'v jsobject \<Rightarrow> string \<Rightarrow> bool" where
  "truthyProperty obj k = (hasOwn obj k \<or> k \<in> set objectPrototypeKeys)"

text \<open>\<^verbatim>\<open>acc[k].field += amount\<close>: an own property is changed; an inherited one is not part of \<open>acc\<close>.\<close>

definition updateProperty :: "'v jsobject \<Rightarrow> string \<Rightarrow> ('v \<Rightarrow> 'v) \<Rightarrow> 'v jsobject" where
  "updateProperty obj k f = map (\<lambda>(k', v). if k' = k then (k', f v) else (k', v)) obj"

fun indexedProperties :: "'v jsobject \<Rightarrow> (int \<times> 'v) list" where
  "indexedProperties [] = []"
| "indexedProperties ((k, v) # rest) =
     (case arrayIndex k of
        None \<Rightarrow> indexedProperties rest
      | Some n \<Rightarrow> (n, v) # indexedProperties rest)"

definition objectValues :: "'v jsobject \<Rightarrow> 'v list" where
  "objectValues obj =
     map snd (sort_key fst (indexedProperties obj)) @
     map snd (filter (\<lambda>(k, v). arrayIndex k = None) obj)"

record partner =
  partnerName :: string
  incoming :: int
  outgoing :: int

record partnerRow = partner +
  total :: int

text \<open>
  \<^verbatim>\<open>
  const topPartners = transactions.reduce((acc, tx) => {
    const isIncoming = tx.to.user.id === currentUser?.id;
    const partnerName = isIncoming ? tx.from.user.name : tx.to.user.name;
    const amount = Math.abs(tx.amount);
    if (!acc[partnerName]) {
      acc[partnerName] = { name: partnerName, incoming: 0, outgoing: 0 };
    }
    if (isIncoming) { acc[partnerName].incoming += amount; }
    else { acc[partnerName].outgoing += amount; }
    return acc;
  }, {});
  \<close>
  The field \<^verbatim>\<open>name\<close> of an entry is \<open>partnerName\<close> here.
\<close>

definition counterparty :: "User option \<Rightarrow> transaction \<Rightarrow> string" where
  "counterparty currentUser tx =
     (if isIncomingTransaction currentUser tx
      then name (user (tx_from tx)) else name (user (tx_to tx)))"

definition partnerStep :: "User option \<Rightarrow> partner jsobject \<Rightarrow> transaction \<Rightarrow> partner jsobject" where
  "partnerStep currentUser acc tx =
     (let isIncoming = isIncomingTransaction currentUser tx;
          pname = counterparty currentUser tx;
          amt = \<bar>amount tx\<bar>;
          acc1 = (if \<not> truthyProperty acc pname
                  then acc @ [(pname, \<lparr>partnerName = pname, incoming = 0, outgoing = 0\<rparr>)]
                  else acc)
      in if isIncoming
         then updateProperty acc1 pname (\<lambda>p. p\<lparr>incoming := incoming p + amt\<rparr>)
         else updateProperty acc1 pname (\<lambda>p. p\<lparr>outgoing := outgoing p + amt\<rparr>))"

definition topPartners :: "User option \<Rightarrow> transaction list \<Rightarrow> partner jsobject" where
  "topPartners currentUser transactions = foldl (partnerStep currentUser) [] transactions"

text \<open>
  \<^verbatim>\<open>
  const topPartnersData = Object.values(topPartners)
    .map(partner => ({ name: partner.name, incoming: partner.incoming,
                       outgoing: partner.outgoing, total: partner.incoming + partner.outgoing }))
    .sort((a, b) => b.total - a.total)
    .slice(0, 5);
  \<close>
\<close>

definition withTotal :: "partner \<Rightarrow> partnerRow" where
  "withTotal p =
     \<lparr>partnerName = partnerName p, incoming = incoming p, outgoing = outgoing p,
      total = incoming p + outgoing p\<rparr>"

definition rankedPartners :: "User option \<Rightarrow> transaction list \<Rightarrow> partnerRow list" where
  "rankedPartners currentUser transactions =
     arraySort (\<lambda>a b. total b - total a)
       (map withTotal (objectValues (topPartners currentUser transactions)))"

definition topPartnersData :: "User option \<Rightarrow> transaction list \<Rightarrow> partnerRow list" where
  "topPartnersData currentUser transactions = take 5 (rankedPartners currentUser transactions)"

section \<open>One render of the page\<close>

text \<open>
  The component body computes the views in this order, all from the state array
  \<^verbatim>\<open>transactions\<close>: the balance curve (which sorts the array in place, oldest first), the
  type totals, the statistics, the counterparties, the table rows (a sorted copy) and the
  running balance (which sorts the array in place again, newest first). \<open>arrayAfter\<close> is
  the state array when the render returns; the next render starts from it.
\<close>

record views =
  balanceChart :: "balancePoint list"
  typeTotalsView :: typeTotals
  statsView :: stats
  partnersView :: "partnerRow list"
  tableRows :: "transaction list"
  runningChart :: "runningPoint list"
  arrayAfter :: "transaction list"

definition HomePage ::
  "(int \<Rightarrow> string) \<Rightarrow> (string \<Rightarrow> string \<Rightarrow> int) \<Rightarrow> User option \<Rightarrow> bankAccount list \<Rightarrow>
     sorter \<Rightarrow> transaction list \<Rightarrow> views" where
  "HomePage dayMonth localeCompare cu accts s transactions =
     (case balanceData cu dayMonth transactions of
        (transactions1, curve) \<Rightarrow>
          (case runningBalanceData cu dayMonth accts transactions1 of
             (transactions2, running) \<Rightarrow>
               \<lparr>balanceChart = curve,
                typeTotalsView = transactionTypes cu transactions1,
                statsView = transactionStats transactions1,
                partnersView = topPartnersData cu transactions1,
                tableRows = sortedTransactions localeCompare s transactions1,
                runningChart = running,
                arrayAfter = transactions2\<rparr>))"

section \<open>Data loader\<close>

text \<open>
  \<^verbatim>\<open>fetchData\<close> awaits three reads and then either adopts their payloads or, in its
  \<^verbatim>\<open>catch\<close>, classifies what was thrown. What the await produced is the value
  \<open>loadResult\<close>: the three payloads, an axios error with its \<^verbatim>\<open>response?.status\<close>,
  its \<^verbatim>\<open>code\<close> and its \<^verbatim>\<open>message\<close>, or anything else that was thrown. The browser's
  \<^verbatim>\<open>localStorage\<close> is a field of the page state. When a payload lacks its envelope,
  the setters before the failing access have already run; the model keeps the old lists
  in that case, and agrees with the code on the message, on \<open>isAuthenticated\<close> and on
  the storage.
\<close>

datatype loadResult =
    Loaded "transaction list" "bankAccount list" User
  | AxiosError "nat option" "string option" string
  | OtherError

record page =
  transactions :: "transaction list"
  accounts :: "bankAccount list"
  loading :: bool
  initialLoading :: bool
  error :: "string option"
  token :: string
  isAuthenticated :: bool
  currentUser :: "User option"
  localStorage :: "string \<rightharpoonup> string"

definition apiKeyItem :: string where
  "apiKeyItem = ''czechibank_api_key''"

definition unauthorizedMessage :: string where
  "unauthorizedMessage = ''Authentication failed. Please check your API key and try again.''"

definition notFoundMessage :: string where
  "notFoundMessage =
     ''API endpoint not found. Please verify the API server is running and the endpoints are correct.''"

definition refusedMessage :: string where
  "refusedMessage =
     ''Could not connect to the API server. Please make sure it is running at http://localhost:3000''"

definition unexpectedMessage :: string where
  "unexpectedMessage = ''An unexpected error occurred. Please try again.''"

definition fetchData :: "string \<Rightarrow> loadResult \<Rightarrow> page \<Rightarrow> page" where
  "fetchData authToken result s0 =
     (let s = s0\<lparr>loading := True, error := None\<rparr>;
          s' =
            (case result of
               Loaded txs accts u \<Rightarrow>
                 s\<lparr>transactions := txs, accounts := accts, currentUser := Some u,
                   isAuthenticated := True,
                   localStorage := (localStorage s)(apiKeyItem \<mapsto> authToken)\<rparr>
             | AxiosError status code message \<Rightarrow>
                 (if status = Some 401
                  then s\<lparr>error := Some unauthorizedMessage,
                         localStorage := (localStorage s)(apiKeyItem := None)\<rparr>
                  else if status = Some 404
                  then s\<lparr>error := Some notFoundMessage\<rparr>
                  else if code = Some ''ECONNREFUSED''
                  then s\<lparr>error := Some refusedMessage\<rparr>
                  else s\<lparr>error := Some (''Failed to fetch data: '' @ message)\<rparr>)
                 \<lparr>isAuthenticated := False\<rparr>
             | OtherError \<Rightarrow>
                 s\<lparr>error := Some unexpectedMessage, isAuthenticated := False\<rparr>)
      in s'\<lparr>loading := False, initialLoading := False\<rparr>)"

section \<open>Notions for the statements about the curves\<close>

text \<open>
  \<open>daysContiguous\<close>: transactions that share a day-and-month label are neighbours in
  time, that is, no transaction with another label lies between two of them. The label
  carries no year, so a history that covers the same calendar day of two years does not
  have the property.
\<close>

definition daysContiguous :: "(int \<Rightarrow> string) \<Rightarrow> transaction list \<Rightarrow> bool" where
  "daysContiguous dayMonth txs \<longleftrightarrow>
     (\<forall>a\<in>set txs. \<forall>b\<in>set txs. \<forall>c\<in>set txs.
        createdAt a \<le> createdAt b \<and> createdAt b \<le> createdAt c \<and>
        dayMonth (createdAt a) = dayMonth (createdAt c) \<longrightarrow>
        dayMonth (createdAt b) = dayMonth (createdAt a))"

text \<open>A list of labels in which equal labels form one block.\<close>

fun grouped :: "'k list \<Rightarrow> bool" where
  "grouped [] = True"
| "grouped (k # ks) = (grouped ks \<and> (k \<in> set ks \<longrightarrow> hd ks = k))"

text \<open>
  What one step of either curve does to the list of buckets, in terms of \<open>date\<close> and
  \<open>balance\<close> only: with \<open>start\<close> the balance before the first step and \<open>delta x\<close> the
  signed change of transaction \<open>x\<close>, the new balance is the balance of the last bucket
  (or \<open>start\<close>) plus \<open>delta x\<close>, written to the first bucket of \<open>x\<close>'s label or appended
  as a new bucket.
\<close>

definition bucketSpec ::
  "int \<Rightarrow> (transaction \<Rightarrow> int) \<Rightarrow> (int \<Rightarrow> string) \<Rightarrow>
     'a point_scheme list \<Rightarrow> transaction \<Rightarrow> 'a point_scheme list \<Rightarrow> bool" where
  "bucketSpec start delta dayMonth acc x acc' \<longleftrightarrow>
     (let d = dayMonth (createdAt x);
          newBalance = (if acc = [] then start else balance (last acc)) + delta x
      in case findIndex (\<lambda>item. date item = d) acc of
           None \<Rightarrow> (\<exists>p. acc' = acc @ [p] \<and> date p = d \<and> balance p = newBalance)
         | Some i \<Rightarrow> (\<exists>q. acc' = acc[i := q] \<and> date q = d \<and> balance q = newBalance))"

text \<open>
  The sums a counterparty named \<open>k\<close> should show: the absolute amounts of the
  transactions with that counterparty, received and sent.
\<close>

definition incomingOf :: "User option \<Rightarrow> string \<Rightarrow> transaction list \<Rightarrow> int" where
  "incomingOf cu k txs =
     sum_list (map (\<lambda>tx. \<bar>amount tx\<bar>)
       (filter (\<lambda>tx. counterparty cu tx = k \<and> isIncomingTransaction cu tx) txs))"

definition outgoingOf :: "User option \<Rightarrow> string \<Rightarrow> transaction list \<Rightarrow> int" where
  "outgoingOf cu k txs =
     sum_list (map (\<lambda>tx. \<bar>amount tx\<bar>)
       (filter (\<lambda>tx. counterparty cu tx = k \<and> \<not> isIncomingTransaction cu tx) txs))"

text \<open>The distinct elements of a list in the order of their first occurrence.\<close>

definition firstSeen :: "'a list \<Rightarrow> 'a list" where
  "firstSeen xs = rev (remdups (rev xs))"

section \<open>Example data\<close>

text \<open>
  Concrete inputs for evaluating the definitions: the signed-in user Alice, her account
  with a given balance, a transfer between two users given as (display name, user id),
  and instants at noon UTC (one at 18:00).
\<close>

definition alice :: User where
  "alice = \<lparr>user_id = ''u-alice'', user_name = ''Alice'', email = ''alice@example.org''\<rparr>"

definition transfer ::
  "string \<Rightarrow> int \<Rightarrow> int \<Rightarrow> string \<times> string \<Rightarrow> string \<times> string \<Rightarrow> transaction" where
  "transfer i a t sender receiver =
     \<lparr>tx_id = i, amount = a, createdAt = t, currency = ''CZECHITOKEN'',
      tx_from = \<lparr>number = ''acc-'' @ snd sender,
                 user = \<lparr>name = fst sender, uid = snd sender\<rparr>\<rparr>,
      tx_to = \<lparr>number = ''acc-'' @ snd receiver,
               user = \<lparr>name = fst receiver, uid = snd receiver\<rparr>\<rparr>\<rparr>"


definition jan01_2023 :: int where "jan01_2023 = 1672574400000"
definition jan02_2023 :: int where "jan02_2023 = 1672660800000"
definition jan01_2024 :: int where "jan01_2024 = 1704110400000"
definition jan01_2024_evening :: int where "jan01_2024_evening = 1704132000000"
definition jan03_2024 :: int where "jan03_2024 = 1704283200000"

section \<open>Theorems\<close>

subsection \<open>Sorter state\<close>

text \<open>
  C9. For every sorter state: selecting the active field keeps the field and flips the
  direction between ascending and descending; selecting another field makes that field
  active and sets the direction to ascending.
\<close>

theorem handleSort_spec:
  "(sortField s = field \<longrightarrow>
      sortField (handleSort field s) = sortField s \<and>
      (sortOrder s = asc \<longrightarrow> sortOrder (handleSort field s) = desc) \<and>
      (sortOrder s = desc \<longrightarrow> sortOrder (handleSort field s) = asc)) \<and>
   (sortField s \<noteq> field \<longrightarrow>
      sortField (handleSort field s) = field \<and>
      sortOrder (handleSort field s) = asc)"
  by (cases "sortOrder s") (simp_all add: handleSort_def)

theorem handleSort_spec_witness:
  "sortField (handleSort by_date \<lparr>sortField = by_date, sortOrder = desc\<rparr>) = by_date \<and>
   sortOrder (handleSort by_date \<lparr>sortField = by_date, sortOrder = desc\<rparr>) = asc \<and>
   sortOrder (handleSort by_date \<lparr>sortField = by_date, sortOrder = asc\<rparr>) = desc \<and>
   sortField (handleSort by_amount \<lparr>sortField = by_date, sortOrder = desc\<rparr>) = by_amount \<and>
   sortOrder (handleSort by_amount \<lparr>sortField = by_date, sortOrder = desc\<rparr>) = asc"
  using handleSort_spec [of "\<lparr>sortField = by_date, sortOrder = desc\<rparr>" by_date]
        handleSort_spec [of "\<lparr>sortField = by_date, sortOrder = asc\<rparr>" by_date]
        handleSort_spec [of "\<lparr>sortField = by_date, sortOrder = desc\<rparr>" by_amount]
  by simp

subsection \<open>Income, expense and volume\<close>

lemma typesStep_sum:
  "Income (typesStep cu acc tx) + Expense (typesStep cu acc tx) =
     Income acc + Expense acc + \<bar>amount tx\<bar>"
  by (simp add: typesStep_def orZero_def)

lemma typesStep_nonneg:
  "0 \<le> Income acc \<Longrightarrow> 0 \<le> Expense acc \<Longrightarrow>
     0 \<le> Income (typesStep cu acc tx) \<and> 0 \<le> Expense (typesStep cu acc tx)"
  by (simp add: typesStep_def orZero_def)

lemma foldl_typesStep_sum:
  "Income (foldl (typesStep cu) acc txs) + Expense (foldl (typesStep cu) acc txs) =
     Income acc + Expense acc + sum_list (map (\<lambda>tx. \<bar>amount tx\<bar>) txs)"
proof (induction txs arbitrary: acc)
  case Nil
  show ?case by simp
next
  case (Cons tx txs)
  show ?case
    using Cons.IH [of "typesStep cu acc tx"] typesStep_sum [of cu acc tx] by simp
qed

lemma foldl_typesStep_nonneg:
  "0 \<le> Income acc \<Longrightarrow> 0 \<le> Expense acc \<Longrightarrow>
     0 \<le> Income (foldl (typesStep cu) acc txs) \<and> 0 \<le> Expense (foldl (typesStep cu) acc txs)"
proof (induction txs arbitrary: acc)
  case Nil
  then show ?case by simp
next
  case (Cons tx txs)
  from typesStep_nonneg [OF Cons.prems, of cu tx] Cons.IH [of "typesStep cu acc tx"]
  show ?case by simp
qed

lemma foldl_abs_amount:
  "foldl (\<lambda>sum tx. sum + \<bar>amount tx\<bar>) a txs = a + sum_list (map (\<lambda>tx. \<bar>amount tx\<bar>) txs)"
  by (induction txs arbitrary: a) simp_all

lemma volume_sum_list: "volume txs = sum_list (map (\<lambda>tx. \<bar>amount tx\<bar>) txs)"
  by (simp add: volume_def foldl_abs_amount)

text \<open>
  With exact additions the income total plus the expense total is the sum of the absolute
  amounts, which is also the exact total volume, and both totals are non-negative.
\<close>

lemma income_expense_partition:
  "Income (transactionTypes cu txs) + Expense (transactionTypes cu txs) =
     sum_list (map (\<lambda>tx. \<bar>amount tx\<bar>) txs) \<and>
   Income (transactionTypes cu txs) + Expense (transactionTypes cu txs) =
     totalVolume (transactionStats txs) \<and>
   0 \<le> Income (transactionTypes cu txs) \<and>
   0 \<le> Expense (transactionTypes cu txs)"
proof -
  have total: "Income (transactionTypes cu txs) + Expense (transactionTypes cu txs) =
      sum_list (map (\<lambda>tx. \<bar>amount tx\<bar>) txs)"
    unfolding transactionTypes_def by (simp add: foldl_typesStep_sum)
  have vol: "totalVolume (transactionStats txs) = sum_list (map (\<lambda>tx. \<bar>amount tx\<bar>) txs)"
    by (simp add: transactionStats_def volume_sum_list)
  have pos: "0 \<le> Income (transactionTypes cu txs) \<and> 0 \<le> Expense (transactionTypes cu txs)"
    unfolding transactionTypes_def by (rule foldl_typesStep_nonneg) simp_all
  from total vol pos show ?thesis by simp
qed

subsection \<open>The totals as doubles\<close>

lemma bitLength_bound: "0 \<le> a \<Longrightarrow> a < 2 ^ k \<Longrightarrow> bitLength a \<le> k"
proof (induction k arbitrary: a)
  case 0
  then have "a = 0" by simp
  then show ?case by (simp add: bitLength.simps)
next
  case (Suc k)
  show ?case
  proof (cases "a \<le> 0")
    case True
    then show ?thesis by (simp add: bitLength.simps)
  next
    case False
    from Suc.prems have "0 \<le> a div 2" "a div 2 < 2 ^ k" by auto
    then have "bitLength (a div 2) \<le> k" by (rule Suc.IH)
    with False show ?thesis by (subst bitLength.simps) simp
  qed
qed

lemma roundToDouble_exact:
  assumes "\<bar>x\<bar> \<le> 2 ^ 53"
  shows "roundToDouble x = Finite x"
proof (cases "\<bar>x\<bar> < 2 ^ 53")
  case True
  then have "bitLength \<bar>x\<bar> \<le> 53" by (intro bitLength_bound) simp_all
  then show ?thesis by (simp add: roundToDouble_def Let_def)
next
  case False
  have pow: "(2 :: int) ^ 53 = 9007199254740992" by simp
  from False assms have "x = 9007199254740992 \<or> x = - 9007199254740992"
    unfolding pow by arith
  moreover have "roundToDouble 9007199254740992 = Finite 9007199254740992" by code_simp
  moreover have "roundToDouble (- 9007199254740992) = Finite (- 9007199254740992)" by code_simp
  ultimately show ?thesis by auto
qed

lemma jsAdd_exact:
  "\<bar>a + b\<bar> \<le> 2 ^ 53 \<Longrightarrow> jsAdd (Finite a) (Finite b) = Finite (a + b)"
  using roundToDouble_exact [of "a + b"] by simp

lemma absAmount_exact: "\<bar>amount tx\<bar> \<le> 2 ^ 53 \<Longrightarrow> absAmount tx = Finite \<bar>amount tx\<bar>"
  using roundToDouble_exact [of "\<bar>amount tx\<bar>"] by (simp add: absAmount_def)

lemma orZeroNumber_Finite: "orZeroNumber (Finite i) = Finite i"
  by (simp add: orZeroNumber_def)

lemma orZero_id: "orZero i = i"
  by (simp add: orZero_def)

lemma abs_amounts_nonneg: "0 \<le> sum_list (map (\<lambda>tx. \<bar>amount tx\<bar>) txs)"
  by (induction txs) simp_all

lemma foldl_typesStep_double:
  assumes "0 \<le> Income acc" and "0 \<le> Expense acc"
    and "Income acc + Expense acc + sum_list (map (\<lambda>tx. \<bar>amount tx\<bar>) txs) \<le> 2 ^ 53"
  shows "foldl (typesStep_double cu)
           \<lparr>Income_double = Finite (Income acc), Expense_double = Finite (Expense acc)\<rparr> txs =
         \<lparr>Income_double = Finite (Income (foldl (typesStep cu) acc txs)),
          Expense_double = Finite (Expense (foldl (typesStep cu) acc txs))\<rparr>"
  using assms
proof (induction txs arbitrary: acc)
  case Nil
  show ?case by simp
next
  case (Cons tx txs)
  let ?rest = "sum_list (map (\<lambda>tx. \<bar>amount tx\<bar>) txs)"
  have rest: "0 \<le> ?rest" by (rule abs_amounts_nonneg)
  from Cons.prems rest have small: "\<bar>amount tx\<bar> \<le> 2 ^ 53"
    "\<bar>Income acc + \<bar>amount tx\<bar>\<bar> \<le> 2 ^ 53" "\<bar>Expense acc + \<bar>amount tx\<bar>\<bar> \<le> 2 ^ 53"
    by simp_all
  have step: "typesStep_double cu
        \<lparr>Income_double = Finite (Income acc), Expense_double = Finite (Expense acc)\<rparr> tx =
      \<lparr>Income_double = Finite (Income (typesStep cu acc tx)),
       Expense_double = Finite (Expense (typesStep cu acc tx))\<rparr>"
    using absAmount_exact [OF small(1)]
      jsAdd_exact [OF small(2)] jsAdd_exact [OF small(3)]
    by (simp add: typesStep_double_def typesStep_def orZeroNumber_Finite orZero_id)
  have "0 \<le> Income (typesStep cu acc tx)" "0 \<le> Expense (typesStep cu acc tx)"
    using typesStep_nonneg [OF Cons.prems(1,2), of cu tx] by simp_all
  moreover have "Income (typesStep cu acc tx) + Expense (typesStep cu acc tx) + ?rest \<le> 2 ^ 53"
    using Cons.prems(3) typesStep_sum [of cu acc tx] by simp
  ultimately show ?case
    using Cons.IH [of "typesStep cu acc tx"] step by simp
qed

lemma foldl_volume_double:
  assumes "0 \<le> a" and "a + sum_list (map (\<lambda>tx. \<bar>amount tx\<bar>) txs) \<le> 2 ^ 53"
  shows "foldl (\<lambda>sum tx. jsAdd sum (absAmount tx)) (Finite a) txs =
         Finite (a + sum_list (map (\<lambda>tx. \<bar>amount tx\<bar>) txs))"
  using assms
proof (induction txs arbitrary: a)
  case Nil
  show ?case by simp
next
  case (Cons tx txs)
  have rest: "0 \<le> sum_list (map (\<lambda>tx. \<bar>amount tx\<bar>) txs)" by (rule abs_amounts_nonneg)
  with Cons.prems have small: "\<bar>amount tx\<bar> \<le> 2 ^ 53" "\<bar>a + \<bar>amount tx\<bar>\<bar> \<le> 2 ^ 53" by simp_all
  then have "jsAdd (Finite a) (absAmount tx) = Finite (a + \<bar>amount tx\<bar>)"
    using absAmount_exact [of tx] jsAdd_exact [of a "\<bar>amount tx\<bar>"] by simp
  with Cons.IH [of "a + \<bar>amount tx\<bar>"] Cons.prems show ?case by (simp add: add.assoc)
qed

lemma totals_exact:
  assumes "sum_list (map (\<lambda>tx. \<bar>amount tx\<bar>) txs) \<le> 2 ^ 53"
  shows "transactionTypes_double cu txs =
           \<lparr>Income_double = Finite (Income (transactionTypes cu txs)),
            Expense_double = Finite (Expense (transactionTypes cu txs))\<rparr>"
    and "totalVolume_double txs = Finite (totalVolume (transactionStats txs))"
proof -
  show "transactionTypes_double cu txs =
           \<lparr>Income_double = Finite (Income (transactionTypes cu txs)),
            Expense_double = Finite (Expense (transactionTypes cu txs))\<rparr>"
    unfolding transactionTypes_double_def transactionTypes_def
    using foldl_typesStep_double [of "\<lparr>Income = 0, Expense = 0\<rparr>" txs cu] assms by simp
  show "totalVolume_double txs = Finite (totalVolume (transactionStats txs))"
    unfolding totalVolume_double_def
    using foldl_volume_double [of 0 txs] assms
    by (simp add: transactionStats_def volume_sum_list)
qed

text \<open>
  C3 (amended). The totals are sums of doubles, and a sum of doubles is rounded, so
  the income total plus the expense total need not be the sum of the absolute amounts.
  What holds: for every list of whole amounts whose absolute values sum to at most
  \<open>2\<^sup>5\<^sup>3\<close>, and every current user, the income total plus the expense total, added as
  the browser adds them, is the sum of the absolute amounts and is the total volume of
  the summary statistics, and both totals are finite and non-negative.
\<close>

theorem income_expense_partition_whole_amounts:
  assumes "sum_list (map (\<lambda>tx. \<bar>amount tx\<bar>) txs) \<le> 2 ^ 53"
  shows
    "jsAdd (Income_double (transactionTypes_double cu txs))
           (Expense_double (transactionTypes_double cu txs)) =
       Finite (sum_list (map (\<lambda>tx. \<bar>amount tx\<bar>) txs)) \<and>
     jsAdd (Income_double (transactionTypes_double cu txs))
           (Expense_double (transactionTypes_double cu txs)) = totalVolume_double txs \<and>
     (\<exists>i e. Income_double (transactionTypes_double cu txs) = Finite i \<and>
            Expense_double (transactionTypes_double cu txs) = Finite e \<and> 0 \<le> i \<and> 0 \<le> e)"
proof -
  note exact = income_expense_partition [of cu txs]
  from exact assms have "\<bar>Income (transactionTypes cu txs) + Expense (transactionTypes cu txs)\<bar> \<le> 2 ^ 53"
    by simp
  then have sum: "jsAdd (Finite (Income (transactionTypes cu txs)))
                     (Finite (Expense (transactionTypes cu txs))) =
      Finite (Income (transactionTypes cu txs) + Expense (transactionTypes cu txs))"
    by (rule jsAdd_exact)
  from sum exact show ?thesis
    unfolding totals_exact [OF assms] by simp
qed

text \<open>
  Beyond \<open>2\<^sup>5\<^sup>3\<close>: Alice receives 9007199254740991 and then sends 1 three times. The
  two totals add up to 9007199254740994, the sum of the amounts, but the total volume,
  added one amount at a time, stays at 9007199254740992. When she receives
  9007199254740992 and sends 1, the two totals add up to 9007199254740992, and the sum
  of the amounts is 9007199254740993.
\<close>

theorem income_expense_rounding_counterexample:
  "jsAdd
     (Income_double (transactionTypes_double (Some alice)
        [transfer ''t1'' 9007199254740991 jan01_2023 (''Bob'', ''u-bob'') (''Alice'', ''u-alice''),
         transfer ''t2'' 1 jan02_2023 (''Alice'', ''u-alice'') (''Bob'', ''u-bob''),
         transfer ''t3'' 1 jan01_2024 (''Alice'', ''u-alice'') (''Bob'', ''u-bob''),
         transfer ''t4'' 1 jan03_2024 (''Alice'', ''u-alice'') (''Bob'', ''u-bob'')]))
     (Expense_double (transactionTypes_double (Some alice)
        [transfer ''t1'' 9007199254740991 jan01_2023 (''Bob'', ''u-bob'') (''Alice'', ''u-alice''),
         transfer ''t2'' 1 jan02_2023 (''Alice'', ''u-alice'') (''Bob'', ''u-bob''),
         transfer ''t3'' 1 jan01_2024 (''Alice'', ''u-alice'') (''Bob'', ''u-bob''),
         transfer ''t4'' 1 jan03_2024 (''Alice'', ''u-alice'') (''Bob'', ''u-bob'')])) =
     Finite 9007199254740994 \<and>
   totalVolume_double
     [transfer ''t1'' 9007199254740991 jan01_2023 (''Bob'', ''u-bob'') (''Alice'', ''u-alice''),
      transfer ''t2'' 1 jan02_2023 (''Alice'', ''u-alice'') (''Bob'', ''u-bob''),
      transfer ''t3'' 1 jan01_2024 (''Alice'', ''u-alice'') (''Bob'', ''u-bob''),
      transfer ''t4'' 1 jan03_2024 (''Alice'', ''u-alice'') (''Bob'', ''u-bob'')] =
     Finite 9007199254740992 \<and>
   jsAdd
     (Income_double (transactionTypes_double (Some alice)
        [transfer ''t1'' 9007199254740992 jan01_2023 (''Bob'', ''u-bob'') (''Alice'', ''u-alice''),
         transfer ''t2'' 1 jan02_2023 (''Alice'', ''u-alice'') (''Bob'', ''u-bob'')]))
     (Expense_double (transactionTypes_double (Some alice)
        [transfer ''t1'' 9007199254740992 jan01_2023 (''Bob'', ''u-bob'') (''Alice'', ''u-alice''),
         transfer ''t2'' 1 jan02_2023 (''Alice'', ''u-alice'') (''Bob'', ''u-bob'')])) =
     Finite 9007199254740992 \<and>
   sum_list (map (\<lambda>tx. \<bar>amount tx\<bar>)
     [transfer ''t1'' 9007199254740992 jan01_2023 (''Bob'', ''u-bob'') (''Alice'', ''u-alice''),
      transfer ''t2'' 1 jan02_2023 (''Alice'', ''u-alice'') (''Bob'', ''u-bob'')]) =
     9007199254740993"
  by code_simp

theorem income_expense_partition_whole_amounts_witness:
  "sum_list (map (\<lambda>tx. \<bar>amount tx\<bar>)
     [transfer ''t1'' 100 jan01_2023 (''Bob'', ''u-bob'') (''Alice'', ''u-alice''),
      transfer ''t2'' 40 jan02_2023 (''Alice'', ''u-alice'') (''Bob'', ''u-bob'')]) \<le> 2 ^ 53 \<and>
   jsAdd
     (Income_double (transactionTypes_double (Some alice)
        [transfer ''t1'' 100 jan01_2023 (''Bob'', ''u-bob'') (''Alice'', ''u-alice''),
         transfer ''t2'' 40 jan02_2023 (''Alice'', ''u-alice'') (''Bob'', ''u-bob'')]))
     (Expense_double (transactionTypes_double (Some alice)
        [transfer ''t1'' 100 jan01_2023 (''Bob'', ''u-bob'') (''Alice'', ''u-alice''),
         transfer ''t2'' 40 jan02_2023 (''Alice'', ''u-alice'') (''Bob'', ''u-bob'')])) =
     Finite (sum_list (map (\<lambda>tx. \<bar>amount tx\<bar>)
       [transfer ''t1'' 100 jan01_2023 (''Bob'', ''u-bob'') (''Alice'', ''u-alice''),
        transfer ''t2'' 40 jan02_2023 (''Alice'', ''u-alice'') (''Bob'', ''u-bob'')])) \<and>
   jsAdd
     (Income_double (transactionTypes_double (Some alice)
        [transfer ''t1'' 100 jan01_2023 (''Bob'', ''u-bob'') (''Alice'', ''u-alice''),
         transfer ''t2'' 40 jan02_2023 (''Alice'', ''u-alice'') (''Bob'', ''u-bob'')]))
     (Expense_double (transactionTypes_double (Some alice)
        [transfer ''t1'' 100 jan01_2023 (''Bob'', ''u-bob'') (''Alice'', ''u-alice''),
         transfer ''t2'' 40 jan02_2023 (''Alice'', ''u-alice'') (''Bob'', ''u-bob'')])) =
     totalVolume_double
       [transfer ''t1'' 100 jan01_2023 (''Bob'', ''u-bob'') (''Alice'', ''u-alice''),
        transfer ''t2'' 40 jan02_2023 (''Alice'', ''u-alice'') (''Bob'', ''u-bob'')]"
proof -
  let ?txs = "[transfer ''t1'' 100 jan01_2023 (''Bob'', ''u-bob'') (''Alice'', ''u-alice''),
               transfer ''t2'' 40 jan02_2023 (''Alice'', ''u-alice'') (''Bob'', ''u-bob'')]"
  have small: "sum_list (map (\<lambda>tx. \<bar>amount tx\<bar>) ?txs) \<le> 2 ^ 53"
    by (simp add: transfer_def)
  from income_expense_partition_whole_amounts [OF small, of "Some alice"] small
  show ?thesis by blast
qed

subsection \<open>Summary statistics of no transactions\<close>

text \<open>
  C5. On the empty transaction list the summary statistics are count 0, volume 0,
  average 0, maximum 0 and minimum 0: every field is a finite number, because each of
  the three guarded fields takes its \<^verbatim>\<open>: 0\<close> branch and neither divides by the length
  nor takes the maximum or minimum of nothing.
\<close>

theorem transactionStats_empty:
  "transactionStats [] =
     \<lparr>totalTransactions = 0, totalVolume = 0, averageAmount = Finite 0,
      largestTransaction = Finite 0, smallestTransaction = Finite 0\<rparr>"
  by (simp add: transactionStats_def volume_def)

subsection \<open>Credential storage of the data loader\<close>

text \<open>
  C7. A load that fails as unauthorized (an axios error whose response status is 401)
  displays the unauthorized message and removes the stored credential; every other
  failure leaves the storage as it was; a successful load stores the credential it was
  called with.
\<close>

theorem fetchData_credential:
  "(result = AxiosError (Some 401) code message \<longrightarrow>
      error (fetchData authToken result s) = Some unauthorizedMessage \<and>
      localStorage (fetchData authToken result s) = (localStorage s)(apiKeyItem := None)) \<and>
   ((result = AxiosError status code message \<and> status \<noteq> Some 401) \<or> result = OtherError \<longrightarrow>
      localStorage (fetchData authToken result s) = localStorage s) \<and>
   (result = Loaded txs accts u \<longrightarrow>
      localStorage (fetchData authToken result s) = (localStorage s)(apiKeyItem \<mapsto> authToken))"
  by (auto simp: fetchData_def Let_def)

theorem fetchData_credential_witness:
  "error (fetchData ''bad'' (AxiosError (Some 401) None ''Request failed with status code 401'')
            \<lparr>transactions = [], accounts = [], loading = False, initialLoading = False,
             error = None, token = ''bad'', isAuthenticated = False, currentUser = None,
             localStorage = [apiKeyItem \<mapsto> ''old'']\<rparr>) = Some unauthorizedMessage \<and>
   localStorage (fetchData ''bad'' (AxiosError (Some 401) None ''Request failed with status code 401'')
            \<lparr>transactions = [], accounts = [], loading = False, initialLoading = False,
             error = None, token = ''bad'', isAuthenticated = False, currentUser = None,
             localStorage = [apiKeyItem \<mapsto> ''old'']\<rparr>) apiKeyItem = None \<and>
   localStorage (fetchData ''key'' (AxiosError (Some 404) None ''Request failed with status code 404'')
            \<lparr>transactions = [], accounts = [], loading = False, initialLoading = False,
             error = None, token = ''key'', isAuthenticated = False, currentUser = None,
             localStorage = [apiKeyItem \<mapsto> ''old'']\<rparr>) apiKeyItem = Some ''old'' \<and>
   localStorage (fetchData ''key'' OtherError
            \<lparr>transactions = [], accounts = [], loading = False, initialLoading = False,
             error = None, token = ''key'', isAuthenticated = False, currentUser = None,
             localStorage = [apiKeyItem \<mapsto> ''old'']\<rparr>) apiKeyItem = Some ''old'' \<and>
   localStorage (fetchData ''key''
            (Loaded [] [] \<lparr>user_id = ''u1'', user_name = ''Ada'', email = ''ada@example.org''\<rparr>)
            \<lparr>transactions = [], accounts = [], loading = False, initialLoading = False,
             error = None, token = ''key'', isAuthenticated = False, currentUser = None,
             localStorage = Map.empty\<rparr>) apiKeyItem = Some ''key''"
  using
    fetchData_credential [of "AxiosError (Some 401) None ''Request failed with status code 401''"
      None "''Request failed with status code 401''" "''bad''"
      "\<lparr>transactions = [], accounts = [], loading = False, initialLoading = False,
        error = None, token = ''bad'', isAuthenticated = False, currentUser = None,
        localStorage = [apiKeyItem \<mapsto> ''old'']\<rparr>" "Some 401" "[]" "[]" undefined]
    fetchData_credential [of "AxiosError (Some 404) None ''Request failed with status code 404''"
      None "''Request failed with status code 404''" "''key''"
      "\<lparr>transactions = [], accounts = [], loading = False, initialLoading = False,
        error = None, token = ''key'', isAuthenticated = False, currentUser = None,
        localStorage = [apiKeyItem \<mapsto> ''old'']\<rparr>" "Some 404" "[]" "[]" undefined]
    fetchData_credential [of OtherError
      None "[]" "''key''"
      "\<lparr>transactions = [], accounts = [], loading = False, initialLoading = False,
        error = None, token = ''key'', isAuthenticated = False, currentUser = None,
        localStorage = [apiKeyItem \<mapsto> ''old'']\<rparr>" None "[]" "[]" undefined]
    fetchData_credential [of
      "Loaded [] [] \<lparr>user_id = ''u1'', user_name = ''Ada'', email = ''ada@example.org''\<rparr>"
      None "[]" "''key''"
      "\<lparr>transactions = [], accounts = [], loading = False, initialLoading = False,
        error = None, token = ''key'', isAuthenticated = False, currentUser = None,
        localStorage = Map.empty\<rparr>" None "[]" "[]"
      "\<lparr>user_id = ''u1'', user_name = ''Ada'', email = ''ada@example.org''\<rparr>"]
  by simp

subsection \<open>Stable sorting with a consistent comparator\<close>

lemma set_insertSorted: "set (insertSorted cmp x ys) = insert x (set ys)"
  by (induction ys) auto

lemma set_arraySort: "set (arraySort cmp xs) = set xs"
  by (induction xs) (simp_all add: set_insertSorted)

lemma length_insertSorted: "length (insertSorted cmp x ys) = Suc (length ys)"
  by (induction ys) auto

lemma length_arraySort: "length (arraySort cmp xs) = length xs"
  by (induction xs) (simp_all add: length_insertSorted)

lemma consistent_total:
  "consistentComparator cmp \<Longrightarrow> \<not> cmp a b \<le> 0 \<Longrightarrow> cmp b a \<le> 0"
  unfolding consistentComparator_def
  by (metis linorder_le_cases)

lemma consistent_trans:
  "consistentComparator cmp \<Longrightarrow> cmp a b \<le> 0 \<Longrightarrow> cmp b c \<le> 0 \<Longrightarrow> cmp a c \<le> 0"
  unfolding consistentComparator_def by blast

lemma consistent_zero:
  "consistentComparator cmp \<Longrightarrow> cmp a b = 0 \<Longrightarrow> cmp b a = 0"
  unfolding consistentComparator_def
  by (metis order_antisym order_refl)

lemma sorted_insertSorted:
  assumes "consistentComparator cmp" and "sorted_wrt (\<lambda>a b. cmp a b \<le> 0) ys"
  shows "sorted_wrt (\<lambda>a b. cmp a b \<le> 0) (insertSorted cmp x ys)"
  using assms(2)
proof (induction ys)
  case Nil
  show ?case by simp
next
  case (Cons y ys)
  show ?case
  proof (cases "cmp x y \<le> 0")
    case True
    with Cons.prems assms(1) show ?thesis
      by (auto intro: consistent_trans)
  next
    case False
    then have "cmp y x \<le> 0" using assms(1) by (rule consistent_total [rotated])
    with False Cons show ?thesis
      by (auto simp: set_insertSorted)
  qed
qed

lemma sorted_arraySort:
  "consistentComparator cmp \<Longrightarrow> sorted_wrt (\<lambda>a b. cmp a b \<le> 0) (arraySort cmp xs)"
  by (induction xs) (simp_all add: sorted_insertSorted)

lemma consistent_strict:
  assumes "consistentComparator cmp" and "cmp x y \<noteq> 0"
  shows "(cmp y x \<le> 0) = (\<not> cmp x y \<le> 0)"
proof -
  from assms(1) have "(cmp x y \<le> 0) = (0 \<le> cmp y x)" and "(cmp y x \<le> 0) = (0 \<le> cmp x y)"
    unfolding consistentComparator_def by blast+
  with assms(2) show ?thesis by linarith
qed

lemma insertSorted_commute:
  assumes "consistentComparator cmp" and "cmp x y \<noteq> 0"
  shows "insertSorted cmp x (insertSorted cmp y zs) = insertSorted cmp y (insertSorted cmp x zs)"
proof (induction zs)
  case Nil
  show ?case by (simp add: consistent_strict [OF assms])
next
  case (Cons z zs)
  note strict = consistent_strict [OF assms]
  show ?case
  proof (cases "cmp x z \<le> 0")
    case xz: True
    show ?thesis
    proof (cases "cmp y z \<le> 0")
      case True
      with xz show ?thesis by (simp add: strict)
    next
      case yz: False
      have "\<not> cmp y x \<le> 0"
        using consistent_trans [OF assms(1), of y x z] xz yz by blast
      with xz yz show ?thesis by simp
    qed
  next
    case xz: False
    show ?thesis
    proof (cases "cmp y z \<le> 0")
      case yz: True
      have "\<not> cmp x y \<le> 0"
        using consistent_trans [OF assms(1), of x y z] xz yz by blast
      with xz yz show ?thesis by simp
    next
      case False
      with xz Cons.IH show ?thesis by simp
    qed
  qed
qed

lemma arraySort_move:
  assumes "consistentComparator cmp" and "\<forall>p\<in>set ps. cmp p x \<noteq> 0"
  shows "arraySort cmp (ps @ x # qs) = insertSorted cmp x (arraySort cmp (ps @ qs))"
  using assms(2)
proof (induction ps)
  case Nil
  show ?case by simp
next
  case (Cons p ps)
  then have "arraySort cmp ((p # ps) @ x # qs) =
      insertSorted cmp p (insertSorted cmp x (arraySort cmp (ps @ qs)))"
    by simp
  also have "\<dots> = insertSorted cmp x (insertSorted cmp p (arraySort cmp (ps @ qs)))"
    using Cons.prems insertSorted_commute [OF assms(1), of p x "arraySort cmp (ps @ qs)"] by simp
  finally show ?case by simp
qed

lemma insertSorted_split:
  "\<exists>ps qs. insertSorted cmp x ys = ps @ x # qs \<and> ys = ps @ qs \<and> (\<forall>p\<in>set ps. \<not> cmp x p \<le> 0)"
proof (induction ys)
  case Nil
  show ?case by simp
next
  case (Cons y ys)
  show ?case
  proof (cases "cmp x y \<le> 0")
    case True
    then have "insertSorted cmp x (y # ys) = [] @ x # (y # ys) \<and> y # ys = [] @ (y # ys) \<and>
        (\<forall>p\<in>set []. \<not> cmp x p \<le> 0)"
      by simp
    then show ?thesis by blast
  next
    case False
    from Cons.IH obtain ps qs where
      "insertSorted cmp x ys = ps @ x # qs" "ys = ps @ qs" "\<forall>p\<in>set ps. \<not> cmp x p \<le> 0"
      by blast
    with False have "insertSorted cmp x (y # ys) = (y # ps) @ x # qs \<and> y # ys = (y # ps) @ qs \<and>
        (\<forall>p\<in>set (y # ps). \<not> cmp x p \<le> 0)"
      by simp
    then show ?thesis by blast
  qed
qed

lemma arraySort_absorb:
  assumes "consistentComparator cmp"
    and "\<And>a b. cmp a b = 0 \<Longrightarrow> cmp' b a \<le> 0"
  shows "arraySort cmp (arraySort cmp' xs) = arraySort cmp xs"
proof (induction xs)
  case Nil
  show ?case by simp
next
  case (Cons x xs)
  obtain ps qs where
    split: "insertSorted cmp' x (arraySort cmp' xs) = ps @ x # qs"
      "arraySort cmp' xs = ps @ qs" "\<forall>p\<in>set ps. \<not> cmp' x p \<le> 0"
    using insertSorted_split [of cmp' x "arraySort cmp' xs"] by blast
  from split(3) assms(2) have "\<forall>p\<in>set ps. cmp p x \<noteq> 0" by blast
  then have "arraySort cmp (ps @ x # qs) = insertSorted cmp x (arraySort cmp (ps @ qs))"
    by (rule arraySort_move [OF assms(1)])
  with split Cons.IH show ?case by simp
qed

subsection \<open>Table sorter\<close>

lemma consistent_scaled_difference:
  "consistentComparator (\<lambda>a b. (f a - f b) * (if up then 1 else (-1 :: int)))"
  unfolding consistentComparator_def by (cases up) auto

lemma consistent_difference: "consistentComparator (\<lambda>a b. (f a :: int) - f b)"
  unfolding consistentComparator_def by auto

lemma consistent_on_key:
  assumes "consistentComparator cmp"
  shows "consistentComparator (\<lambda>a b. cmp (f a) (f b) * (if up then 1 else (-1 :: int)))"
proof (cases up)
  case True
  with assms show ?thesis unfolding consistentComparator_def by simp blast
next
  case False
  have "\<And>a b c. 0 \<le> cmp a b \<Longrightarrow> 0 \<le> cmp b c \<Longrightarrow> 0 \<le> cmp a c"
    using assms unfolding consistentComparator_def by blast
  moreover have "\<And>a b. (0 \<le> cmp a b) = (cmp b a \<le> 0)"
    using assms unfolding consistentComparator_def by blast
  ultimately show ?thesis
    using False unfolding consistentComparator_def by simp blast
qed

lemma consistent_tableComparator:
  assumes "consistentComparator localeCompare"
  shows "consistentComparator (tableComparator localeCompare s)"
proof -
  have eq: "tableComparator localeCompare s =
     (case sortField s of
        by_date \<Rightarrow> (\<lambda>a b. (createdAt a - createdAt b) * (if sortOrder s = asc then 1 else -1))
      | by_amount \<Rightarrow> (\<lambda>a b. (amount a - amount b) * (if sortOrder s = asc then 1 else -1))
      | by_from \<Rightarrow> (\<lambda>a b. localeCompare (name (user (tx_from a))) (name (user (tx_from b))) *
                              (if sortOrder s = asc then 1 else -1))
      | by_to \<Rightarrow> (\<lambda>a b. localeCompare (name (user (tx_to a))) (name (user (tx_to b))) *
                            (if sortOrder s = asc then 1 else -1)))"
    by (intro ext) (simp add: tableComparator_def Let_def split: SortField.splits)
  show ?thesis
    unfolding eq
    by (cases "sortField s")
       (simp_all add: consistent_scaled_difference consistent_on_key [OF assms])
qed

lemma tableComparator_toggled:
  "tableComparator localeCompare (handleSort (sortField s) s) a b =
     - tableComparator localeCompare s a b"
  by (cases "sortOrder s"; cases "sortField s")
     (simp_all add: tableComparator_def handleSort_def)

lemma handleSort_twice: "handleSort (sortField s) (handleSort (sortField s) s) = s"
  by (cases "sortOrder s") (simp_all add: handleSort_def)

lemma sortedTransactions_idem:
  assumes "consistentComparator localeCompare"
  shows "sortedTransactions localeCompare s (sortedTransactions localeCompare s txs) =
           sortedTransactions localeCompare s txs"
  unfolding sortedTransactions_def
  by (rule arraySort_absorb [OF consistent_tableComparator [OF assms]])
     (simp add: consistent_zero [OF consistent_tableComparator [OF assms]])

lemma sortedTransactions_toggled_absorbed:
  assumes "consistentComparator localeCompare"
  shows "sortedTransactions localeCompare s
           (sortedTransactions localeCompare (handleSort (sortField s) s) txs) =
         sortedTransactions localeCompare s txs"
  unfolding sortedTransactions_def
  by (rule arraySort_absorb [OF consistent_tableComparator [OF assms]])
     (simp add: tableComparator_toggled consistent_zero [OF consistent_tableComparator [OF assms]])

lemma sortChronological_absorbs_newestFirst:
  "sortChronological (sortNewestFirst txs) = sortChronological txs"
  unfolding sortChronological_def sortNewestFirst_def
  by (rule arraySort_absorb [OF consistent_difference]) simp

lemma sortChronological_idem: "sortChronological (sortChronological txs) = sortChronological txs"
  unfolding sortChronological_def
  by (rule arraySort_absorb [OF consistent_difference]) simp

lemma tableRows_HomePage:
  "tableRows (HomePage dayMonth localeCompare cu accts s txs) =
     sortedTransactions localeCompare s (sortChronological txs)"
  by (simp add: HomePage_def balanceData_def runningBalanceData_def Let_def)

lemma arrayAfter_HomePage:
  "arrayAfter (HomePage dayMonth localeCompare cu accts s txs) =
     sortNewestFirst (sortChronological txs)"
  by (simp add: HomePage_def balanceData_def runningBalanceData_def Let_def)

lemma sortChronological_arrayAfter:
  "sortChronological (arrayAfter (HomePage dayMonth localeCompare cu accts s txs)) =
     sortChronological txs"
  by (simp add: arrayAfter_HomePage sortChronological_absorbs_newestFirst sortChronological_idem)

lemma codeUnitCompare_sign: "(codeUnitCompare a b \<le> 0) = (0 \<le> codeUnitCompare b a)"
  by (induction a b rule: codeUnitCompare.induct) auto

lemma codeUnitCompare_trans:
  "codeUnitCompare a b \<le> 0 \<Longrightarrow> codeUnitCompare b c \<le> 0 \<Longrightarrow> codeUnitCompare a c \<le> 0"
proof (induction a b arbitrary: c rule: codeUnitCompare.induct)
  case 1
  then show ?case by simp
next
  case (2 y ys)
  then show ?case by (cases c) simp_all
next
  case (3 x xs)
  then show ?case by simp
next
  case (4 x xs y ys)
  show ?case
  proof (cases c)
    case Nil
    with 4 show ?thesis by (simp split: if_splits)
  next
    case (Cons z zs)
    with "4.prems" "4.IH" [of zs] show ?thesis
      by (auto split: if_splits)
  qed
qed

lemma consistent_codeUnitCompare: "consistentComparator codeUnitCompare"
  unfolding consistentComparator_def
  using codeUnitCompare_sign codeUnitCompare_trans by blast

text \<open>
  C8. For every transaction list, sorter state and consistent \<^verbatim>\<open>localeCompare\<close>: sorting
  the table rows again with the same field and direction changes nothing; selecting the
  active field twice gives back the sorter state; sorting the rows with the toggled
  direction and then with the original one gives the original rows; and over three
  renders of the page, with the active field selected before the second and the third,
  the third table is the first one (the in-place sorts of the two balance curves between
  the renders do not change what the table starts from).
\<close>

theorem table_sort_idempotent_toggle:
  assumes "consistentComparator localeCompare"
  shows
    "sortedTransactions localeCompare s (sortedTransactions localeCompare s txs) =
       sortedTransactions localeCompare s txs \<and>
     handleSort (sortField s) (handleSort (sortField s) s) = s \<and>
     sortedTransactions localeCompare s
       (sortedTransactions localeCompare (handleSort (sortField s) s)
          (sortedTransactions localeCompare s txs)) =
       sortedTransactions localeCompare s txs \<and>
     tableRows
       (HomePage dayMonth localeCompare cu accts (handleSort (sortField s) (handleSort (sortField s) s))
          (arrayAfter (HomePage dayMonth localeCompare cu accts (handleSort (sortField s) s)
             (arrayAfter (HomePage dayMonth localeCompare cu accts s txs))))) =
       tableRows (HomePage dayMonth localeCompare cu accts s txs)"
proof -
  have rows: "sortedTransactions localeCompare s
       (sortedTransactions localeCompare (handleSort (sortField s) s)
          (sortedTransactions localeCompare s txs)) =
       sortedTransactions localeCompare s txs"
    by (simp add: sortedTransactions_toggled_absorbed [OF assms] sortedTransactions_idem [OF assms])
  have renders: "tableRows
       (HomePage dayMonth localeCompare cu accts (handleSort (sortField s) (handleSort (sortField s) s))
          (arrayAfter (HomePage dayMonth localeCompare cu accts (handleSort (sortField s) s)
             (arrayAfter (HomePage dayMonth localeCompare cu accts s txs))))) =
       tableRows (HomePage dayMonth localeCompare cu accts s txs)"
    by (simp only: tableRows_HomePage sortChronological_arrayAfter handleSort_twice)
  from sortedTransactions_idem [OF assms] handleSort_twice rows renders show ?thesis
    by blast
qed

theorem table_sort_idempotent_toggle_witness:
  "consistentComparator codeUnitCompare \<and>
   (sortedTransactions codeUnitCompare \<lparr>sortField = by_to, sortOrder = asc\<rparr>
      (sortedTransactions codeUnitCompare \<lparr>sortField = by_to, sortOrder = asc\<rparr>
         [transfer ''t1'' 100 jan02_2023 (''Bob'', ''u-bob'') (''Alice'', ''u-alice''),
          transfer ''t2'' 40 jan01_2023 (''Alice'', ''u-alice'') (''Carol'', ''u-carol''),
          transfer ''t3'' 7 jan03_2024 (''Alice'', ''u-alice'') (''Bob'', ''u-bob'')]) =
    sortedTransactions codeUnitCompare \<lparr>sortField = by_to, sortOrder = asc\<rparr>
      [transfer ''t1'' 100 jan02_2023 (''Bob'', ''u-bob'') (''Alice'', ''u-alice''),
       transfer ''t2'' 40 jan01_2023 (''Alice'', ''u-alice'') (''Carol'', ''u-carol''),
       transfer ''t3'' 7 jan03_2024 (''Alice'', ''u-alice'') (''Bob'', ''u-bob'')])"
  using consistent_codeUnitCompare
    table_sort_idempotent_toggle [OF consistent_codeUnitCompare,
      of "\<lparr>sortField = by_to, sortOrder = asc\<rparr>"
         "[transfer ''t1'' 100 jan02_2023 (''Bob'', ''u-bob'') (''Alice'', ''u-alice''),
           transfer ''t2'' 40 jan01_2023 (''Alice'', ''u-alice'') (''Carol'', ''u-carol''),
           transfer ''t3'' 7 jan03_2024 (''Alice'', ''u-alice'') (''Bob'', ''u-bob'')]"]
  by blast

subsection \<open>Buckets of a running total\<close>

lemma findIndex_None_iff: "findIndex p xs = None \<longleftrightarrow> (\<forall>x\<in>set xs. \<not> p x)"
  by (induction xs) auto

lemma findIndex_Some_bound: "findIndex p xs = Some i \<Longrightarrow> i < length xs \<and> p (xs ! i)"
  by (induction xs arbitrary: i) (auto split: if_splits)

lemma findIndex_distinct_last:
  "distinct (map f xs) \<Longrightarrow> xs \<noteq> [] \<Longrightarrow>
     findIndex (\<lambda>item. f item = f (last xs)) xs = Some (length xs - 1)"
proof (induction xs)
  case Nil
  then show ?case by simp
next
  case (Cons x xs)
  show ?case
  proof (cases "xs = []")
    case True
    then show ?thesis by simp
  next
    case False
    with Cons.prems have "f x \<noteq> f (last xs)" by auto
    with False Cons show ?thesis by simp
  qed
qed

lemma grouped_snoc:
  "grouped (ks @ [k]) \<longleftrightarrow> grouped ks \<and> (k \<in> set ks \<longrightarrow> last ks = k)"
proof (induction ks)
  case Nil
  show ?case by simp
next
  case (Cons a ks)
  show ?case
  proof (cases "ks = []")
    case True
    then show ?thesis by auto
  next
    case False
    then have "hd (ks @ [k]) = hd ks" "last (a # ks) = last ks" "last ks \<in> set ks" "hd ks \<in> set ks"
      by simp_all
    with Cons.IH show ?thesis by auto
  qed
qed

lemma update_last: "xs \<noteq> [] \<Longrightarrow> xs[length xs - 1 := q] = butlast xs @ [q]"
  by (induction xs rule: rev_induct) simp_all

lemma bucket_run:
  fixes step :: "'a point_scheme list \<Rightarrow> transaction \<Rightarrow> 'a point_scheme list"
  assumes spec: "\<And>acc x. bucketSpec start delta dayMonth acc x (step acc x)"
    and grp: "grouped (map (\<lambda>x. dayMonth (createdAt x)) xs)"
  shows "set (map date (foldl step [] xs)) = (\<lambda>x. dayMonth (createdAt x)) ` set xs \<and>
         distinct (map date (foldl step [] xs)) \<and>
         (xs \<noteq> [] \<longrightarrow>
            foldl step [] xs \<noteq> [] \<and>
            date (last (foldl step [] xs)) = dayMonth (createdAt (last xs)) \<and>
            balance (last (foldl step [] xs)) = start + sum_list (map delta xs) \<and>
            date (hd (foldl step [] xs)) = dayMonth (createdAt (hd xs)) \<and>
            balance (hd (foldl step [] xs)) =
              start + sum_list (map delta
                (filter (\<lambda>y. dayMonth (createdAt y) = dayMonth (createdAt (hd xs))) xs)))"
  using grp
proof (induction xs rule: rev_induct)
  case Nil
  show ?case by simp
next
  case (snoc x xs)
  let ?lab = "\<lambda>x. dayMonth (createdAt x)"
  let ?acc = "foldl step [] xs"
  let ?d = "dayMonth (createdAt x)"
  from snoc.prems have g: "grouped (map ?lab xs)"
    by (simp add: grouped_snoc)
  from snoc.prems have recur: "?d \<in> ?lab ` set xs \<Longrightarrow> ?lab (last xs) = ?d"
    by (cases "xs = []") (auto simp: grouped_snoc last_map)
  note IH = snoc.IH [OF g]
  have sp: "bucketSpec start delta dayMonth ?acc x (step ?acc x)" by (rule spec)
  have fold: "foldl step [] (xs @ [x]) = step ?acc x" by simp
  show ?case
  proof (cases "xs = []")
    case True
    with sp obtain p where "step [] x = [p]" "date p = ?d" "balance p = start + delta x"
      by (auto simp: bucketSpec_def Let_def)
    with True show ?thesis by simp
  next
    case nonempty: False
    with IH have ne: "?acc \<noteq> []"
      and dates: "set (map date ?acc) = ?lab ` set xs"
      and dist: "distinct (map date ?acc)"
      and lastd: "date (last ?acc) = ?lab (last xs)"
      and lastb: "balance (last ?acc) = start + sum_list (map delta xs)"
      and hdd: "date (hd ?acc) = ?lab (hd xs)"
      and hdb: "balance (hd ?acc) =
            start + sum_list (map delta (filter (\<lambda>y. ?lab y = ?lab (hd xs)) xs))"
      by blast+
    show ?thesis
    proof (cases "?d \<in> ?lab ` set xs")
      case fresh: False
      with dates have "\<forall>item\<in>set ?acc. date item \<noteq> ?d"
        by (metis image_eqI list.set_map)
      then have "findIndex (\<lambda>item. date item = ?d) ?acc = None"
        by (simp add: findIndex_None_iff)
      with sp ne obtain p where
        p: "step ?acc x = ?acc @ [p]" "date p = ?d" "balance p = balance (last ?acc) + delta x"
        by (auto simp: bucketSpec_def Let_def)
      from fresh nonempty have other: "?lab x \<noteq> ?lab (hd xs)"
        by (metis hd_in_set image_eqI)
      have "set (map date (step ?acc x)) = ?lab ` set (xs @ [x])"
        using p dates by auto
      moreover have "distinct (map date (step ?acc x))"
        using p dist dates fresh by auto
      moreover have "step ?acc x \<noteq> []" using p by simp
      moreover have "date (last (step ?acc x)) = ?lab (last (xs @ [x]))" using p by simp
      moreover have "balance (last (step ?acc x)) = start + sum_list (map delta (xs @ [x]))"
        using p lastb by simp
      moreover have "date (hd (step ?acc x)) = ?lab (hd (xs @ [x]))"
        using p ne hdd nonempty by simp
      moreover have "balance (hd (step ?acc x)) =
          start + sum_list (map delta
            (filter (\<lambda>y. ?lab y = ?lab (hd (xs @ [x]))) (xs @ [x])))"
        using p ne hdb nonempty other by simp
      ultimately show ?thesis unfolding fold by blast
    next
      case seen: True
      then have "?lab (last xs) = ?d" by (rule recur)
      with lastd have ld: "date (last ?acc) = ?d" by simp
      from findIndex_distinct_last [OF dist ne] ld
      have fi: "findIndex (\<lambda>item. date item = ?d) ?acc = Some (length ?acc - 1)" by simp
      from ne obtain B l where acc_eq: "?acc = B @ [l]"
        by (cases ?acc rule: rev_cases) auto
      from ld acc_eq have dl: "date l = ?d" by simp
      from dist acc_eq have dB: "date l \<notin> date ` set B" by simp
      from sp fi acc_eq obtain q where
        q: "step ?acc x = B @ [q]" "date q = ?d" "balance q = balance l + delta x"
        by (auto simp: bucketSpec_def Let_def)
      have same: "map date (step ?acc x) = map date ?acc"
        using q dl acc_eq by simp
      have "set (map date (step ?acc x)) = ?lab ` set (xs @ [x])"
        unfolding same using dates seen by auto
      moreover have "distinct (map date (step ?acc x))"
        unfolding same using dist by simp
      moreover have "step ?acc x \<noteq> []" using q by simp
      moreover have "date (last (step ?acc x)) = ?lab (last (xs @ [x]))"
        using q by simp
      moreover have "balance (last (step ?acc x)) = start + sum_list (map delta (xs @ [x]))"
        using q lastb acc_eq by simp
      moreover have "date (hd (step ?acc x)) = ?lab (hd (xs @ [x]))
          \<and> balance (hd (step ?acc x)) =
          start + sum_list (map delta
            (filter (\<lambda>y. ?lab y = ?lab (hd (xs @ [x]))) (xs @ [x])))"
      proof (cases "B = []")
        case True
        with acc_eq dl dates have "?lab ` set xs = {?d}" by simp
        then have all: "\<forall>y\<in>set xs. ?lab y = ?d" by blast
        with nonempty have hx: "?lab (hd xs) = ?d" by simp
        from all hx have "filter (\<lambda>y. ?lab y = ?lab (hd xs)) xs = xs" by simp
        with True q lastb acc_eq hx nonempty show ?thesis by simp
      next
        case False
        then have hd_same: "hd (step ?acc x) = hd ?acc"
          using q acc_eq by simp
        from False have "hd ?acc \<in> set B"
          using acc_eq by simp
        then have "date (hd ?acc) \<in> date ` set B" by (rule imageI)
        with dB have "date (hd ?acc) \<noteq> date l" by metis
        with hdd dl have "?lab x \<noteq> ?lab (hd xs)" by simp
        with hd_same hdd hdb nonempty show ?thesis by simp
      qed
      ultimately show ?thesis unfolding fold by blast
    qed
  qed
qed

lemma balanceStep_spec:
  "bucketSpec 0 (signedAmount cu) dayMonth acc x (balanceStep cu dayMonth acc x)"
proof (cases "findIndex (\<lambda>item. date item = dayMonth (createdAt x)) acc")
  case None
  then show ?thesis
    by (simp add: bucketSpec_def balanceStep_def Let_def)
next
  case (Some i)
  from findIndex_Some_bound [OF Some]
  have d: "date (acc ! i) = dayMonth (createdAt x)" and ne: "acc \<noteq> []" by auto
  let ?q = "(acc ! i)\<lparr>balance := balance (last acc) + signedAmount cu x\<rparr>"
  have "balanceStep cu dayMonth acc x = acc[i := ?q]"
    using Some ne by (simp add: balanceStep_def Let_def)
  moreover have "date ?q = dayMonth (createdAt x)" using d by simp
  moreover have "balance ?q = balance (last acc) + signedAmount cu x" by simp
  ultimately show ?thesis
    using Some ne unfolding bucketSpec_def Let_def by (simp only: option.case if_False) blast
qed


lemma daysContiguous_subset:
  "daysContiguous dayMonth xs \<Longrightarrow> set ys \<subseteq> set xs \<Longrightarrow> daysContiguous dayMonth ys"
  unfolding daysContiguous_def by (meson subsetD)

lemma daysContiguous_tail: "daysContiguous dayMonth (x # xs) \<Longrightarrow> daysContiguous dayMonth xs"
  by (erule daysContiguous_subset) auto

lemma daysContiguous_set: "set xs = set ys \<Longrightarrow> daysContiguous dayMonth xs = daysContiguous dayMonth ys"
  unfolding daysContiguous_def by simp

lemma daysContiguousD:
  "daysContiguous dayMonth xs \<Longrightarrow> a \<in> set xs \<Longrightarrow> b \<in> set xs \<Longrightarrow> c \<in> set xs \<Longrightarrow>
     createdAt a \<le> createdAt b \<Longrightarrow> createdAt b \<le> createdAt c \<Longrightarrow>
     dayMonth (createdAt a) = dayMonth (createdAt c) \<Longrightarrow>
     dayMonth (createdAt b) = dayMonth (createdAt a)"
  unfolding daysContiguous_def by blast

lemma grouped_oldest_first:
  assumes "sorted_wrt (\<lambda>a b. createdAt a \<le> createdAt b) xs" and "daysContiguous dayMonth xs"
  shows "grouped (map (\<lambda>x. dayMonth (createdAt x)) xs)"
  using assms
proof (induction xs)
  case Nil
  show ?case by simp
next
  case (Cons x xs)
  from Cons have g: "grouped (map (\<lambda>x. dayMonth (createdAt x)) xs)"
    by (simp add: daysContiguous_tail)
  have "hd (map (\<lambda>x. dayMonth (createdAt x)) xs) = dayMonth (createdAt x)"
    if "dayMonth (createdAt x) \<in> set (map (\<lambda>x. dayMonth (createdAt x)) xs)"
  proof -
    from that obtain y where y: "y \<in> set xs" "dayMonth (createdAt y) = dayMonth (createdAt x)"
      by auto
    then have ne: "xs \<noteq> []" by auto
    then have h: "hd xs \<in> set xs" by simp
    from Cons.prems(1) h have 1: "createdAt x \<le> createdAt (hd xs)" by simp
    from Cons.prems(1) y(1) ne have 2: "createdAt (hd xs) \<le> createdAt y"
      by (cases xs) auto
    have "dayMonth (createdAt (hd xs)) = dayMonth (createdAt x)"
      by (rule daysContiguousD [OF Cons.prems(2) _ _ _ 1 2]) (use h y in simp_all)
    with ne show ?thesis by (simp add: hd_map)
  qed
  with g show ?case by simp
qed


lemma sorted_sortChronological:
  "sorted_wrt (\<lambda>a b. createdAt a \<le> createdAt b) (sortChronological txs)"
  using sorted_arraySort [OF consistent_difference, of createdAt txs]
  by (simp add: sortChronological_def)


lemma set_sortChronological: "set (sortChronological txs) = set txs"
  by (simp add: sortChronological_def set_arraySort)







subsection \<open>Round trip between the two balance curves\<close>








subsection \<open>The chronological curve when a day of the year comes back\<close>

text \<open>
  C6. The chronological balance curve should hold, in the bucket of a date, the
  cumulative balance after the latest transaction of that date. The reduce reads the
  running total from the \<^emph>\<open>last\<close> bucket, \<^verbatim>\<open>acc[acc.length - 1].balance\<close>, but writes a
  repeated date to the \<^emph>\<open>first\<close> bucket of that date. Alice sends 10 on 1 January 2023,
  20 on 2 January 2023, 5 on 1 January 2024 and 1 later that day: the net is \<open>-36\<close>, and
  the bucket of 1 January ends at \<open>-31\<close>, because the 5 was written to the first bucket
  and the next step started again from the \<open>-30\<close> of the last one.
\<close>

theorem same_day_across_years_evaluation:
  "map (\<lambda>p. (date p, balance p))
     (balanceChart (HomePage dayMonthUTC codeUnitCompare (Some alice) []
        \<lparr>sortField = by_date, sortOrder = desc\<rparr>
        [transfer ''t1'' 10 jan01_2023 (''Alice'', ''u-alice'') (''Bob'', ''u-bob''),
         transfer ''t2'' 20 jan02_2023 (''Alice'', ''u-alice'') (''Bob'', ''u-bob''),
         transfer ''t3'' 5 jan01_2024 (''Alice'', ''u-alice'') (''Bob'', ''u-bob''),
         transfer ''t4'' 1 jan01_2024_evening (''Alice'', ''u-alice'') (''Bob'', ''u-bob'')])) =
     [(''1. 1.'', - 31), (''2. 1.'', - 30)] \<and>
   sum_list (map (signedAmount (Some alice))
        [transfer ''t1'' 10 jan01_2023 (''Alice'', ''u-alice'') (''Bob'', ''u-bob''),
         transfer ''t2'' 20 jan02_2023 (''Alice'', ''u-alice'') (''Bob'', ''u-bob''),
         transfer ''t3'' 5 jan01_2024 (''Alice'', ''u-alice'') (''Bob'', ''u-bob''),
         transfer ''t4'' 1 jan01_2024_evening (''Alice'', ''u-alice'') (''Bob'', ''u-bob'')]) = - 36"
  by code_simp

lemma bucket_run_all:
  fixes step :: "'a point_scheme list \<Rightarrow> transaction \<Rightarrow> 'a point_scheme list"
  assumes spec: "\<And>acc x. bucketSpec start delta dayMonth acc x (step acc x)"
    and grp: "grouped (map (\<lambda>x. dayMonth (createdAt x)) xs)"
    and mem: "p \<in> set (foldl step [] xs)"
  shows "balance p = start + sum_list (map delta
           (rev (dropWhile (\<lambda>y. dayMonth (createdAt y) \<noteq> date p) (rev xs))))"
  using grp mem
proof (induction xs arbitrary: p rule: rev_induct)
  case Nil
  then show ?case by simp
next
  case (snoc x xs)
  let ?lab = "\<lambda>x. dayMonth (createdAt x)"
  let ?acc = "foldl step [] xs"
  let ?d = "dayMonth (createdAt x)"
  from snoc.prems(1) have g: "grouped (map ?lab xs)"
    by (simp add: grouped_snoc)
  from snoc.prems(1) have recur: "?d \<in> ?lab ` set xs \<Longrightarrow> ?lab (last xs) = ?d"
    by (cases "xs = []") (auto simp: grouped_snoc last_map)
  note run = bucket_run [of start delta dayMonth step xs, OF spec g]
  from run have dates: "set (map date ?acc) = ?lab ` set xs"
    and dist: "distinct (map date ?acc)" by blast+
  have lastb: "(if ?acc = [] then start else balance (last ?acc)) = start + sum_list (map delta xs)"
  proof (cases "xs = []")
    case True
    then show ?thesis by simp
  next
    case False
    with run show ?thesis by simp
  qed
  have sp: "bucketSpec start delta dayMonth ?acc x (step ?acc x)" by (rule spec)
  from snoc.prems(2) have p: "p \<in> set (step ?acc x)" by simp
  have old: "balance p' = start + sum_list (map delta
        (rev (dropWhile (\<lambda>y. ?lab y \<noteq> date p') (rev (xs @ [x])))))"
    if "p' \<in> set ?acc" "date p' \<noteq> ?d" for p'
    using snoc.IH [OF g that(1)] that(2) by simp
  have new: "balance q = start + sum_list (map delta
        (rev (dropWhile (\<lambda>y. ?lab y \<noteq> date q) (rev (xs @ [x])))))"
    if "date q = ?d" "balance q = (if ?acc = [] then start else balance (last ?acc)) + delta x" for q
    using that lastb by simp
  show ?case
  proof (cases "findIndex (\<lambda>item. date item = ?d) ?acc")
    case None
    with sp obtain q where q: "step ?acc x = ?acc @ [q]" "date q = ?d"
      "balance q = (if ?acc = [] then start else balance (last ?acc)) + delta x"
      by (auto simp: bucketSpec_def Let_def)
    from None have fresh: "\<forall>item\<in>set ?acc. date item \<noteq> ?d"
      by (simp add: findIndex_None_iff)
    from p q(1) have "p \<in> set ?acc \<or> p = q" by auto
    then show ?thesis
    proof
      assume "p \<in> set ?acc"
      with fresh show ?thesis by (intro old) auto
    next
      assume "p = q"
      with q show ?thesis by (intro new) auto
    qed
  next
    case (Some i)
    from findIndex_Some_bound [OF Some] have i: "i < length ?acc" "date (?acc ! i) = ?d" by auto
    then have ne: "?acc \<noteq> []" by auto
    from i have "?d \<in> set (map date ?acc)" by (metis nth_mem image_eqI list.set_map)
    with dates have "?lab (last xs) = ?d" by (intro recur) simp
    moreover from ne run have "xs \<noteq> []" by auto
    ultimately have ld: "date (last ?acc) = ?d" using run by simp
    from findIndex_distinct_last [OF dist ne] ld Some have i_last: "i = length ?acc - 1" by simp
    from ne obtain B l where acc_eq: "?acc = B @ [l]"
      by (cases ?acc rule: rev_cases) auto
    from dist acc_eq ld have notin: "?d \<notin> date ` set B" by simp
    have dB: "\<forall>b\<in>set B. date b \<noteq> ?d"
    proof
      fix b assume "b \<in> set B"
      then have "date b \<in> date ` set B" by (rule imageI)
      with notin show "date b \<noteq> ?d" by metis
    qed
    from sp Some acc_eq i_last obtain q where q: "step ?acc x = B @ [q]" "date q = ?d"
      "balance q = (if ?acc = [] then start else balance (last ?acc)) + delta x"
      by (auto simp: bucketSpec_def Let_def)
    from p q(1) have "p \<in> set B \<or> p = q" by auto
    then show ?thesis
    proof
      assume "p \<in> set B"
      with dB acc_eq show ?thesis by (intro old) auto
    next
      assume "p = q"
      with q show ?thesis by (intro new) auto
    qed
  qed
qed

text \<open>
  On a history whose days are contiguous the curve is what C6 describes: the array is
  sorted oldest first, there is exactly one bucket per day-and-month label of the
  transactions, and each bucket holds the sum of the signed amounts of all transactions
  up to and including the latest one of its date.
\<close>

theorem chronological_curve_contiguous:
  assumes "daysContiguous dayMonth txs"
  shows
    "sorted_wrt (\<lambda>a b. createdAt a \<le> createdAt b) (fst (balanceData cu dayMonth txs)) \<and>
     distinct (map date (snd (balanceData cu dayMonth txs))) \<and>
     set (map date (snd (balanceData cu dayMonth txs))) =
       (\<lambda>tx. dayMonth (createdAt tx)) ` set txs \<and>
     (\<forall>p\<in>set (snd (balanceData cu dayMonth txs)).
        balance p = sum_list (map (signedAmount cu)
          (rev (dropWhile (\<lambda>tx. dayMonth (createdAt tx) \<noteq> date p)
                 (rev (fst (balanceData cu dayMonth txs)))))))"
proof -
  let ?A = "sortChronological txs"
  have cA: "daysContiguous dayMonth ?A"
    using assms by (rule daysContiguous_subset) (simp add: set_sortChronological)
  have gA: "grouped (map (\<lambda>x. dayMonth (createdAt x)) ?A)"
    by (rule grouped_oldest_first [OF sorted_sortChronological cA])
  note run = bucket_run [of 0 "signedAmount cu" dayMonth "balanceStep cu dayMonth" ?A,
      OF balanceStep_spec gA]
  have each: "balance p = sum_list (map (signedAmount cu)
          (rev (dropWhile (\<lambda>tx. dayMonth (createdAt tx) \<noteq> date p) (rev ?A))))"
    if "p \<in> set (foldl (balanceStep cu dayMonth) [] ?A)" for p
    using bucket_run_all [of 0 "signedAmount cu" dayMonth "balanceStep cu dayMonth" ?A p,
        OF balanceStep_spec gA that]
    by simp
  from run each sorted_sortChronological [of txs] show ?thesis
    by (simp add: balanceData_def Let_def set_sortChronological)
qed

text \<open>
  The scenario of the specification: 100 received and 40 sent give an income total of
  100, an expense total of 40 and a curve that ends at 60.
\<close>

theorem spec_scenario_evaluation:
  "Income (transactionTypes (Some alice)
      [transfer ''1'' 100 jan01_2023 (''Bob'', ''u-bob'') (''Alice'', ''u-alice''),
       transfer ''2'' 40 jan02_2023 (''Alice'', ''u-alice'') (''Bob'', ''u-bob'')]) = 100 \<and>
   Expense (transactionTypes (Some alice)
      [transfer ''1'' 100 jan01_2023 (''Bob'', ''u-bob'') (''Alice'', ''u-alice''),
       transfer ''2'' 40 jan02_2023 (''Alice'', ''u-alice'') (''Bob'', ''u-bob'')]) = 40 \<and>
   balance (last (snd (balanceData (Some alice) dayMonthUTC
      [transfer ''1'' 100 jan01_2023 (''Bob'', ''u-bob'') (''Alice'', ''u-alice''),
       transfer ''2'' 40 jan02_2023 (''Alice'', ''u-alice'') (''Bob'', ''u-bob'')]))) = 60"
  by code_simp

subsection \<open>What the balance curves do to the transaction array\<close>

text \<open>
  C2. The transforms should leave the transaction list as it was. The two balance curves
  call \<^verbatim>\<open>transactions.sort(...)\<close> on the state array (the table copies it first with
  \<^verbatim>\<open>[...transactions]\<close>): \<^verbatim>\<open>balanceData\<close> leaves a newest-first array oldest first,
  \<^verbatim>\<open>runningBalanceData\<close> leaves an oldest-first array newest first, and so does a whole
  render.
\<close>

theorem balance_curves_reorder_transactions:
  "fst (balanceData (Some alice) dayMonthUTC
         [transfer ''t2'' 40 jan02_2023 (''Alice'', ''u-alice'') (''Bob'', ''u-bob''),
          transfer ''t1'' 100 jan01_2023 (''Bob'', ''u-bob'') (''Alice'', ''u-alice'')]) =
     [transfer ''t1'' 100 jan01_2023 (''Bob'', ''u-bob'') (''Alice'', ''u-alice''),
      transfer ''t2'' 40 jan02_2023 (''Alice'', ''u-alice'') (''Bob'', ''u-bob'')] \<and>
   fst (runningBalanceData (Some alice) dayMonthUTC []
         [transfer ''t1'' 100 jan01_2023 (''Bob'', ''u-bob'') (''Alice'', ''u-alice''),
          transfer ''t2'' 40 jan02_2023 (''Alice'', ''u-alice'') (''Bob'', ''u-bob'')]) =
     [transfer ''t2'' 40 jan02_2023 (''Alice'', ''u-alice'') (''Bob'', ''u-bob''),
      transfer ''t1'' 100 jan01_2023 (''Bob'', ''u-bob'') (''Alice'', ''u-alice'')] \<and>
   arrayAfter (HomePage dayMonthUTC codeUnitCompare (Some alice) []
        \<lparr>sortField = by_date, sortOrder = desc\<rparr>
        [transfer ''t1'' 100 jan01_2023 (''Bob'', ''u-bob'') (''Alice'', ''u-alice''),
         transfer ''t2'' 40 jan02_2023 (''Alice'', ''u-alice'') (''Bob'', ''u-bob'')]) =
     [transfer ''t2'' 40 jan02_2023 (''Alice'', ''u-alice'') (''Bob'', ''u-bob''),
      transfer ''t1'' 100 jan01_2023 (''Bob'', ''u-bob'') (''Alice'', ''u-alice'')]"
  by code_simp

subsection \<open>Counterparties\<close>


lemma keys_updateProperty: "map fst (updateProperty obj k f) = map fst obj"
  by (induction obj) (auto simp: updateProperty_def)

lemma set_updateProperty:
  "set (updateProperty obj k f) = (\<lambda>(k', v). if k' = k then (k', f v) else (k', v)) ` set obj"
  by (simp add: updateProperty_def)

lemma flows_absent:
  "k \<notin> counterparty cu ` set txs \<Longrightarrow> incomingOf cu k txs = 0 \<and> outgoingOf cu k txs = 0"
proof -
  assume "k \<notin> counterparty cu ` set txs"
  then have "\<forall>tx\<in>set txs. counterparty cu tx \<noteq> k" by blast
  then have "filter (\<lambda>tx. counterparty cu tx = k \<and> isIncomingTransaction cu tx) txs = []"
    and "filter (\<lambda>tx. counterparty cu tx = k \<and> \<not> isIncomingTransaction cu tx) txs = []"
    by (simp_all add: filter_empty_conv)
  then show ?thesis by (simp add: incomingOf_def outgoingOf_def)
qed

lemma topPartners_invariant:
  "distinct (map fst (topPartners cu txs)) \<and>
   set (map fst (topPartners cu txs)) =
     {k \<in> counterparty cu ` set txs. k \<notin> set objectPrototypeKeys} \<and>
   (\<forall>(k, p)\<in>set (topPartners cu txs).
      partnerName p = k \<and> incoming p = incomingOf cu k txs \<and> outgoing p = outgoingOf cu k txs)"
proof (induction txs rule: rev_induct)
  case Nil
  show ?case by (simp add: topPartners_def)
next
  case (snoc tx txs)
  let ?acc = "topPartners cu txs"
  let ?k = "counterparty cu tx"
  let ?amt = "\<bar>amount tx\<bar>"
  define acc1 where "acc1 =
    (if \<not> truthyProperty ?acc ?k
     then ?acc @ [(?k, \<lparr>partnerName = ?k, incoming = 0, outgoing = 0\<rparr>)] else ?acc)"
  define f :: "partner \<Rightarrow> partner" where "f = (\<lambda>p. if isIncomingTransaction cu tx then p\<lparr>incoming := incoming p + ?amt\<rparr>
                 else p\<lparr>outgoing := outgoing p + ?amt\<rparr>)"
  from snoc.IH have dist: "distinct (map fst ?acc)"
    and keys: "set (map fst ?acc) = {k \<in> counterparty cu ` set txs. k \<notin> set objectPrototypeKeys}"
    and ents: "\<And>k p. (k, p) \<in> set ?acc \<Longrightarrow>
        partnerName p = k \<and> incoming p = incomingOf cu k txs \<and> outgoing p = outgoingOf cu k txs"
    by blast+
  have step: "topPartners cu (txs @ [tx]) = updateProperty acc1 ?k f"
    by (simp add: topPartners_def partnerStep_def Let_def acc1_def f_def)
  have keys1: "map fst acc1 = (if \<not> truthyProperty ?acc ?k then map fst ?acc @ [?k] else map fst ?acc)"
    by (simp add: acc1_def)
  have d: "distinct (map fst (topPartners cu (txs @ [tx])))"
    unfolding step keys_updateProperty keys1
    using dist by (simp add: truthyProperty_def hasOwn_def)
  have s: "set (map fst (topPartners cu (txs @ [tx]))) =
      {k \<in> counterparty cu ` set (txs @ [tx]). k \<notin> set objectPrototypeKeys}"
    unfolding step keys_updateProperty keys1
    using keys by (auto simp: truthyProperty_def hasOwn_def)
  have ents1: "partnerName p = k \<and> incoming p = incomingOf cu k txs \<and> outgoing p = outgoingOf cu k txs"
    if "(k, p) \<in> set acc1" for k p
  proof (cases "(k, p) \<in> set ?acc")
    case True
    then show ?thesis by (rule ents)
  next
    case False
    with that have new: "\<not> truthyProperty ?acc ?k" "k = ?k"
      "p = \<lparr>partnerName = ?k, incoming = 0, outgoing = 0\<rparr>"
      by (auto simp: acc1_def split: if_splits)
    from new(1) keys have "?k \<notin> counterparty cu ` set txs"
      by (auto simp: truthyProperty_def hasOwn_def)
    from flows_absent [OF this] new(2,3) show ?thesis by simp
  qed
  have e: "partnerName p' = k \<and> incoming p' = incomingOf cu k (txs @ [tx]) \<and>
           outgoing p' = outgoingOf cu k (txs @ [tx])"
    if "(k, p') \<in> set (topPartners cu (txs @ [tx]))" for k p'
  proof -
    from that obtain x where x: "x \<in> set acc1"
      "(k, p') = (case x of (k', v) \<Rightarrow> if k' = ?k then (k', f v) else (k', v))"
      unfolding step set_updateProperty by (rule imageE)
    obtain k0 p where x_eq: "x = (k0, p)" by (cases x)
    with x(2) have k0: "k0 = k" and p': "p' = (if k = ?k then f p else p)"
      by (simp_all split: if_splits)
    from x(1) x_eq k0 have "(k, p) \<in> set acc1" by simp
    from ents1 [OF this] p' show ?thesis
      by (auto simp: incomingOf_def outgoingOf_def f_def)
  qed
  from d s e show ?case by blast
qed

lemma set_indexedProperties:
  "snd ` set (indexedProperties obj) = snd ` {kv \<in> set obj. arrayIndex (fst kv) \<noteq> None}"
proof (induction obj)
  case Nil
  show ?case by simp
next
  case (Cons kv obj)
  obtain k v where kv: "kv = (k, v)" by (cases kv)
  have split: "{e \<in> set (kv # obj). arrayIndex (fst e) \<noteq> None} =
      (if arrayIndex k \<noteq> None then {kv} else {}) \<union> {e \<in> set obj. arrayIndex (fst e) \<noteq> None}"
    using kv by auto
  show ?case
    unfolding split using Cons.IH kv by (cases "arrayIndex k") simp_all
qed

lemma set_objectValues: "set (objectValues obj) = snd ` set obj"
proof -
  have 2: "set (filter (\<lambda>(k, v). arrayIndex k = None) obj) =
      {kv \<in> set obj. arrayIndex (fst kv) = None}"
    by auto
  have "set (objectValues obj) =
      snd ` {kv \<in> set obj. arrayIndex (fst kv) \<noteq> None} \<union>
      snd ` {kv \<in> set obj. arrayIndex (fst kv) = None}"
    unfolding objectValues_def using set_indexedProperties [of obj] 2 by simp
  also have "\<dots> = snd ` set obj" by blast
  finally show ?thesis .
qed

lemma objectValues_plain:
  assumes "\<forall>k\<in>set (map fst obj). arrayIndex k = None"
  shows "objectValues obj = map snd obj"
proof -
  from assms have "indexedProperties obj = []"
    by (induction obj) auto
  moreover from assms have "filter (\<lambda>(k, v). arrayIndex k = None) obj = obj"
    by (induction obj) auto
  ultimately show ?thesis by (simp add: objectValues_def)
qed

lemma rankedPartners_rows:
  assumes "r \<in> set (rankedPartners cu txs)"
  shows "partnerName r \<in> counterparty cu ` set txs \<and>
         incoming r = incomingOf cu (partnerName r) txs \<and>
         outgoing r = outgoingOf cu (partnerName r) txs \<and>
         total r = incoming r + outgoing r"
proof -
  from assms have "r \<in> withTotal ` snd ` set (topPartners cu txs)"
    by (simp add: rankedPartners_def set_arraySort set_objectValues)
  then obtain k p where kp: "(k, p) \<in> set (topPartners cu txs)" and r: "r = withTotal p"
    by auto
  from topPartners_invariant [of cu txs] kp
  have p: "partnerName p = k" "incoming p = incomingOf cu k txs" "outgoing p = outgoingOf cu k txs"
    by blast+
  from kp have "k \<in> set (map fst (topPartners cu txs))" by force
  with topPartners_invariant [of cu txs] have "k \<in> counterparty cu ` set txs" by blast
  with p r show ?thesis by (simp add: withTotal_def)
qed


text \<open>
  C4. The top counterparties should be ordered by total with ties in the order of first
  encounter, one row per distinct name. \<^verbatim>\<open>Object.values\<close> lists a name that is an array
  index before every other name, so with equal totals \<^verbatim>\<open>7\<close> comes before \<^verbatim>\<open>Bob\<close>
  although Bob was met first; and a counterparty named like a property of
  \<^verbatim>\<open>Object.prototype\<close> gets no row at all.
\<close>

theorem top_partners_object_keys_evaluation:
  "map (\<lambda>r. (partnerName r, total r))
     (topPartnersData (Some alice)
        [transfer ''t1'' 10 jan01_2023 (''Alice'', ''u-alice'') (''Bob'', ''u-bob''),
         transfer ''t2'' 10 jan02_2023 (''Alice'', ''u-alice'') (''7'', ''u-seven'')]) =
     [(''7'', 10), (''Bob'', 10)] \<and>
   topPartnersData (Some alice)
        [transfer ''t1'' 10 jan01_2023 (''Alice'', ''u-alice'') (''constructor'', ''u-ctor'')] = []"
  by code_simp

lemma firstSeen_snoc:
  "firstSeen (xs @ [x]) = (if x \<in> set xs then firstSeen xs else firstSeen xs @ [x])"
  by (simp add: firstSeen_def)

lemma set_firstSeen: "set (firstSeen xs) = set xs"
  by (simp add: firstSeen_def)

lemma distinct_firstSeen: "distinct (firstSeen xs)"
  by (simp add: firstSeen_def)

lemma keys_partnerStep:
  "map fst (partnerStep cu acc tx) =
     (if truthyProperty acc (counterparty cu tx) then map fst acc
      else map fst acc @ [counterparty cu tx])"
  by (simp add: partnerStep_def Let_def keys_updateProperty)

lemma keys_topPartners:
  "map fst (topPartners cu txs) =
     firstSeen (filter (\<lambda>k. k \<notin> set objectPrototypeKeys) (map (counterparty cu) txs))"
proof (induction txs rule: rev_induct)
  case Nil
  show ?case by (simp add: topPartners_def firstSeen_def)
next
  case (snoc tx txs)
  let ?k = "counterparty cu tx"
  let ?F = "filter (\<lambda>k. k \<notin> set objectPrototypeKeys) (map (counterparty cu) txs)"
  have step: "topPartners cu (txs @ [tx]) = partnerStep cu (topPartners cu txs) tx"
    by (simp add: topPartners_def)
  have own: "hasOwn (topPartners cu txs) ?k = (?k \<in> set ?F)"
    unfolding hasOwn_def snoc.IH set_firstSeen ..
  show ?case
  proof (cases "?k \<in> set objectPrototypeKeys")
    case True
    then show ?thesis
      unfolding step keys_partnerStep using snoc.IH by (simp add: truthyProperty_def)
  next
    case False
    then have "filter (\<lambda>k. k \<notin> set objectPrototypeKeys) (map (counterparty cu) (txs @ [tx])) =
        ?F @ [?k]" by simp
    then show ?thesis
      unfolding step keys_partnerStep
      using snoc.IH False own by (simp add: truthyProperty_def firstSeen_snoc)
  qed
qed

lemma filter_insertSorted_stable:
  assumes "\<And>p. P x \<Longrightarrow> \<not> cmp x p \<le> 0 \<Longrightarrow> \<not> P p"
  shows "filter P (insertSorted cmp x ys) = (if P x then x # filter P ys else filter P ys)"
proof -
  obtain ps qs where split: "insertSorted cmp x ys = ps @ x # qs" "ys = ps @ qs"
    "\<forall>p\<in>set ps. \<not> cmp x p \<le> 0"
    using insertSorted_split [of cmp x ys] by blast
  show ?thesis
  proof (cases "P x")
    case True
    with split(3) assms have "\<forall>p\<in>set ps. \<not> P p" by blast
    then have "filter P ps = []" by (simp add: filter_empty_conv)
    with True split show ?thesis by simp
  next
    case False
    with split show ?thesis by simp
  qed
qed

lemma filter_arraySort_stable:
  assumes "\<And>x p. P x \<Longrightarrow> \<not> cmp x p \<le> 0 \<Longrightarrow> \<not> P p"
  shows "filter P (arraySort cmp xs) = filter P xs"
proof (induction xs)
  case Nil
  show ?case by simp
next
  case (Cons x xs)
  have "filter P (insertSorted cmp x (arraySort cmp xs)) =
      (if P x then x # filter P (arraySort cmp xs) else filter P (arraySort cmp xs))"
    by (rule filter_insertSorted_stable) (rule assms)
  with Cons.IH show ?case by simp
qed

lemma map_filter_map:
  assumes "\<And>x. x \<in> set xs \<Longrightarrow> f (g x) = h x \<and> P (g x) = Q (h x)"
  shows "map f (filter P (map g xs)) = filter Q (map h xs)"
  using assms by (induction xs) auto

lemma sorted_rankedPartners: "sorted_wrt (\<lambda>a b. total b \<le> total a) (rankedPartners cu txs)"
proof -
  have "consistentComparator (\<lambda>a b. total b - total (a :: partnerRow))"
    unfolding consistentComparator_def by auto
  from sorted_arraySort [OF this] show ?thesis
    by (simp add: rankedPartners_def)
qed

text \<open>
  When no counterparty is named like an array index or like a property of
  \<^verbatim>\<open>Object.prototype\<close>, the top counterparties are what C4 describes: the first five of
  a list that has one row per distinct name, is sorted by total, largest first, carries
  in each row the received and sent sums of that name and their sum as total, and lists
  rows of equal total in the order in which their names were first encountered.
\<close>

theorem top_partners_plain_names:
  assumes plain: "\<forall>tx\<in>set txs. arrayIndex (counterparty cu tx) = None \<and>
                     counterparty cu tx \<notin> set objectPrototypeKeys"
  shows
    "topPartnersData cu txs = take 5 (rankedPartners cu txs) \<and>
     length (topPartnersData cu txs) = min 5 (card (counterparty cu ` set txs)) \<and>
     sorted_wrt (\<lambda>a b. total b \<le> total a) (rankedPartners cu txs) \<and>
     (\<forall>r\<in>set (rankedPartners cu txs).
        incoming r = incomingOf cu (partnerName r) txs \<and>
        outgoing r = outgoingOf cu (partnerName r) txs \<and>
        total r = incoming r + outgoing r) \<and>
     (\<forall>t. map partnerName (filter (\<lambda>r. total r = t) (rankedPartners cu txs)) =
          filter (\<lambda>k. incomingOf cu k txs + outgoingOf cu k txs = t)
            (firstSeen (map (counterparty cu) txs)))"
proof -
  let ?acc = "topPartners cu txs"
  let ?names = "map (counterparty cu) txs"
  from plain have "filter (\<lambda>k. k \<notin> set objectPrototypeKeys) ?names = ?names"
    by (simp add: filter_id_conv)
  then have keys: "map fst ?acc = firstSeen ?names"
    by (simp add: keys_topPartners)
  have "\<forall>k\<in>set (map fst ?acc). arrayIndex k = None"
    unfolding keys set_firstSeen using plain by simp
  then have plainValues: "objectValues ?acc = map snd ?acc"
    by (rule objectValues_plain)
  have "length (rankedPartners cu txs) = length (map fst ?acc)"
    by (simp add: rankedPartners_def length_arraySort plainValues)
  also have "\<dots> = card (set (firstSeen ?names))"
    unfolding keys by (simp add: distinct_card distinct_firstSeen)
  also have "\<dots> = card (counterparty cu ` set txs)"
    by (simp add: set_firstSeen)
  finally have len: "length (topPartnersData cu txs) = min 5 (card (counterparty cu ` set txs))"
    by (simp add: topPartnersData_def min.commute)
  have rows: "\<forall>r\<in>set (rankedPartners cu txs).
        incoming r = incomingOf cu (partnerName r) txs \<and>
        outgoing r = outgoingOf cu (partnerName r) txs \<and>
        total r = incoming r + outgoing r"
    using rankedPartners_rows [of _ cu txs] by blast
  have ties: "map partnerName (filter (\<lambda>r. total r = t) (rankedPartners cu txs)) =
          filter (\<lambda>k. incomingOf cu k txs + outgoingOf cu k txs = t) (firstSeen ?names)" for t
  proof -
    have "filter (\<lambda>r. total r = t) (rankedPartners cu txs) =
        filter (\<lambda>r. total r = t) (map withTotal (map snd ?acc))"
      unfolding rankedPartners_def plainValues
      by (rule filter_arraySort_stable) simp
    moreover have "map partnerName (filter (\<lambda>r. total r = t) (map (\<lambda>e. withTotal (snd e)) ?acc)) =
        filter (\<lambda>k. incomingOf cu k txs + outgoingOf cu k txs = t) (map fst ?acc)"
    proof (rule map_filter_map)
      fix e assume e: "e \<in> set ?acc"
      obtain k p where kp: "e = (k, p)" by (cases e)
      with e topPartners_invariant [of cu txs]
      have "partnerName p = k" "incoming p = incomingOf cu k txs" "outgoing p = outgoingOf cu k txs"
        by blast+
      with kp show "partnerName (withTotal (snd e)) = fst e \<and>
          (total (withTotal (snd e)) = t) = (incomingOf cu (fst e) txs + outgoingOf cu (fst e) txs = t)"
        by (simp add: withTotal_def)
    qed
    ultimately show ?thesis by (simp add: keys comp_def)
  qed
  from len sorted_rankedPartners [of cu txs] rows ties show ?thesis
    by (simp add: topPartnersData_def)
qed



end
